theory Spec2Isabelle
  imports Complex_Main "HOL-Library.Multiset"
begin

section \<open>The chemistry toolkit's objects\<close>

text \<open>
  The featurizer reads atoms, bonds and molecules of an external chemistry toolkit
  through getters. An atom is the record of the values its getters return, a bond the
  record of its two end atoms (0-indexed) and of the 13 descriptors the bond-feature
  primitive \<open>b_Feats(bond, use_extended_chirality=True)\<close> computes for it, a molecule the
  list of its atoms (an atom's index is its position) and the list of its bonds.
  Numeric feature entries are floats in the source; they are reals here (every double is
  a real), only the values 0 and 1 are ever compared, and the one floating-point
  operation of the module, the product in \<open>get_atom_mass\<close>, is a parameter.
\<close>

record RDKitAtom =
  GetAtomicNum :: int
  GetTotalDegree :: int
  GetFormalCharge :: int
  GetChiralTag :: int
  GetTotalNumHs :: int
  GetHybridization :: string
  GetIsAromatic :: bool
  GetMass :: real
  GetAtomMapNum :: int

record RDKitBond =
  GetBeginAtomIdx :: nat
  GetEndAtomIdx :: nat
  b_Feats :: "real list"

record RDKitMol =
  GetAtoms :: "RDKitAtom list"
  GetBonds :: "RDKitBond list"

datatype error = KeyError | ValueError | IndexError | RangeError

section \<open>Feature encoders\<close>

subsection \<open>GraphConvConstants\<close>

definition MAX_ATOMIC_NUM :: nat where
  "MAX_ATOMIC_NUM = 100"

definition ATOM_FEATURES_atomic_num :: "int list" where
  "ATOM_FEATURES_atomic_num = map int [0..<MAX_ATOMIC_NUM]"

definition ATOM_FEATURES_degree :: "int list" where
  "ATOM_FEATURES_degree = [0, 1, 2, 3, 4, 5]"

definition ATOM_FEATURES_formal_charge :: "int list" where
  "ATOM_FEATURES_formal_charge = [- 1, - 2, 1, 2, 0]"

definition ATOM_FEATURES_chiral_tag :: "int list" where
  "ATOM_FEATURES_chiral_tag = [0, 1, 2, 3]"

definition ATOM_FEATURES_num_Hs :: "int list" where
  "ATOM_FEATURES_num_Hs = [0, 1, 2, 3, 4]"

definition ATOM_FEATURES_HYBRIDIZATION :: "string list" where
  "ATOM_FEATURES_HYBRIDIZATION = [''SP'', ''SP2'', ''SP3'', ''SP3D'', ''SP3D2'']"

text \<open>
  \<open>ATOM_FDIM = sum(len(choices) + 1 for choices in ATOM_FEATURES.values())
  + len(ATOM_FEATURES_HYBRIDIZATION) + 1 + 2\<close>
\<close>

definition ATOM_FDIM :: nat where
  "ATOM_FDIM =
     sum_list (map (\<lambda>choices. length choices + 1)
       [ATOM_FEATURES_atomic_num, ATOM_FEATURES_degree, ATOM_FEATURES_formal_charge,
        ATOM_FEATURES_chiral_tag, ATOM_FEATURES_num_Hs])
     + length ATOM_FEATURES_HYBRIDIZATION + 1 + 2"

definition BOND_FDIM :: nat where
  "BOND_FDIM = 14"

subsection \<open>One-hot helpers of the utilities module\<close>

text \<open>\<open>allowable_set.index(val)\<close>: the first position of the value, or a ValueError.\<close>

fun list_index :: "'a list \<Rightarrow> 'a \<Rightarrow> error + nat" where
  "list_index [] v = Inl ValueError"
| "list_index (x # xs) v =
     (if x = v then Inr 0
      else (case list_index xs v of Inl e \<Rightarrow> Inl e | Inr i \<Rightarrow> Inr (Suc i)))"

text \<open>
  Modelled from the spec: \<open>one_hot_encode\<close> of \<open>deepchem.utils.molecule_feature_utils\<close>
  is imported by the featurizer and its body is not part of the sources at hand. The spec:
  given a value and an allowed ordered set of categories, produce a vector of length
  |set| (+1 if the unknown bucket is enabled); set the slot matching the value to 1; if
  there is no match and the unknown bucket is enabled, set the extra trailing slot to 1;
  if there is no match and the unknown bucket is disabled, the vector is all zero.
\<close>

definition one_hot_encode :: "'a \<Rightarrow> 'a list \<Rightarrow> bool \<Rightarrow> real list" where
  "one_hot_encode val allowable_set include_unknown_set =
     (let one_hot_length =
            (if include_unknown_set then length allowable_set + 1 else length allowable_set);
          one_hot = replicate one_hot_length 0
      in case list_index allowable_set val of
           Inr i \<Rightarrow> one_hot[i := 1]
         | Inl e \<Rightarrow>
             (if include_unknown_set then one_hot[one_hot_length - 1 := 1] else one_hot))"

text \<open>
  Modelled from the spec: the remaining one-hot getters are imported from
  \<open>deepchem.utils.molecule_feature_utils\<close> as well. The spec gives each as the one-hot
  encoding of one atom property over the category list passed in, with the unknown
  bucket; the aromaticity flag is a single slot.
\<close>

definition get_atom_total_degree_one_hot :: "RDKitAtom \<Rightarrow> int list \<Rightarrow> real list" where
  "get_atom_total_degree_one_hot atom allowable_set =
     one_hot_encode (GetTotalDegree atom) allowable_set True"

definition get_atom_formal_charge_one_hot :: "RDKitAtom \<Rightarrow> int list \<Rightarrow> real list" where
  "get_atom_formal_charge_one_hot atom allowable_set =
     one_hot_encode (GetFormalCharge atom) allowable_set True"

definition get_atom_total_num_Hs_one_hot :: "RDKitAtom \<Rightarrow> int list \<Rightarrow> real list" where
  "get_atom_total_num_Hs_one_hot atom allowable_set =
     one_hot_encode (GetTotalNumHs atom) allowable_set True"

definition get_atom_hybridization_one_hot ::
  "RDKitAtom \<Rightarrow> string list \<Rightarrow> bool \<Rightarrow> real list" where
  "get_atom_hybridization_one_hot atom allowable_set include_unknown_set =
     one_hot_encode (GetHybridization atom) allowable_set include_unknown_set"

definition get_atom_is_in_aromatic_one_hot :: "RDKitAtom \<Rightarrow> real list" where
  "get_atom_is_in_aromatic_one_hot atom = [if GetIsAromatic atom then 1 else 0]"

subsection \<open>The encoders of the featurizer module\<close>

definition get_atomic_num_one_hot :: "RDKitAtom \<Rightarrow> int list \<Rightarrow> bool \<Rightarrow> real list" where
  "get_atomic_num_one_hot atom allowable_set include_unknown_set =
     one_hot_encode (GetAtomicNum atom - 1) allowable_set include_unknown_set"

definition get_atom_chiral_tag_one_hot :: "RDKitAtom \<Rightarrow> int list \<Rightarrow> bool \<Rightarrow> real list" where
  "get_atom_chiral_tag_one_hot atom allowable_set include_unknown_set =
     one_hot_encode (GetChiralTag atom) allowable_set include_unknown_set"

text \<open>
  \<open>atom.GetMass() * 0.01\<close> is a product of two IEEE doubles, rounded to a double. The
  rounding product is the parameter \<open>float_mul\<close> of the encoder; the literal \<open>0.01\<close> is
  the double nearest to one hundredth, which is 5764607523034235 / 2^59.
\<close>

definition double_0_01 :: real where
  "double_0_01 = 5764607523034235 / 2 ^ 59"

definition get_atom_mass :: "(real \<Rightarrow> real \<Rightarrow> real) \<Rightarrow> RDKitAtom \<Rightarrow> real list" where
  "get_atom_mass float_mul atom = [float_mul (GetMass atom) double_0_01]"

text \<open>
  \<open>atom_features(atom, functional_groups=None, only_atom_num=False)\<close>: the atom and the
  functional groups may each be \<open>None\<close>. The comprehension \<open>int(feature)\<close> truncates each
  one-hot entry, which is 0 or 1, so it is \<open>real_of_int \<circ> floor\<close> here.
\<close>

definition atom_features ::
  "(real \<Rightarrow> real \<Rightarrow> real) \<Rightarrow> RDKitAtom option \<Rightarrow> real list option \<Rightarrow> bool \<Rightarrow> real list" where
  "atom_features float_mul atom functional_groups only_atom_num =
     (case atom of
        None \<Rightarrow> replicate ATOM_FDIM 0
      | Some a \<Rightarrow>
          if only_atom_num then
            get_atomic_num_one_hot a ATOM_FEATURES_atomic_num True
            @ replicate (ATOM_FDIM - MAX_ATOMIC_NUM - 1) 0
          else
            (let features =
                   get_atomic_num_one_hot a ATOM_FEATURES_atomic_num True
                   @ get_atom_total_degree_one_hot a ATOM_FEATURES_degree
                   @ get_atom_formal_charge_one_hot a ATOM_FEATURES_formal_charge
                   @ get_atom_chiral_tag_one_hot a ATOM_FEATURES_chiral_tag True
                   @ get_atom_total_num_Hs_one_hot a ATOM_FEATURES_num_Hs
                   @ get_atom_hybridization_one_hot a ATOM_FEATURES_HYBRIDIZATION True
                   @ get_atom_is_in_aromatic_one_hot a;
                 features = map (\<lambda>feature. real_of_int \<lfloor>feature\<rfloor>) features;
                 features = features @ get_atom_mass float_mul a
             in case functional_groups of
                  None \<Rightarrow> features
                | Some fg \<Rightarrow> features @ fg))"

definition bond_features :: "RDKitBond option \<Rightarrow> real list" where
  "bond_features bond =
     (case bond of
        None \<Rightarrow> [1] @ replicate (BOND_FDIM - 1) 0
      | Some b \<Rightarrow> [0] @ b_Feats b)"

section \<open>Reaction atom mapping\<close>

text \<open>A \<open>for\<close> loop whose body may raise: the first error ends the loop.\<close>

fun for_each :: "'a list \<Rightarrow> ('a \<Rightarrow> 's \<Rightarrow> error + 's) \<Rightarrow> 's \<Rightarrow> error + 's" where
  "for_each [] body s = Inr s"
| "for_each (x # xs) body s =
     (case body x s of Inl e \<Rightarrow> Inl e | Inr s' \<Rightarrow> for_each xs body s')"

definition dict_getitem :: "('k \<rightharpoonup> 'v) \<Rightarrow> 'k \<Rightarrow> error + 'v" where
  "dict_getitem d k = (case d k of None \<Rightarrow> Inl KeyError | Some v \<Rightarrow> Inr v)"

definition mapnos_of :: "RDKitMol \<Rightarrow> int set" where
  "mapnos_of mol = set (map GetAtomMapNum (GetAtoms mol))"

definition prod_step ::
  "int set \<Rightarrow> nat \<times> RDKitAtom \<Rightarrow> nat list \<times> (int \<rightharpoonup> nat)
     \<Rightarrow> error + nat list \<times> (int \<rightharpoonup> nat)" where
  "prod_step mapnos_reac ia st =
     (case (ia, st) of ((idx, atom), (only_prod_ids, prod_map_to_id)) \<Rightarrow>
        (let mapno = GetAtomMapNum atom in
         if mapno > 0 then
           (let prod_map_to_id = prod_map_to_id(mapno \<mapsto> idx) in
            if mapno \<notin> mapnos_reac then Inr (only_prod_ids @ [idx], prod_map_to_id)
            else Inr (only_prod_ids, prod_map_to_id))
         else Inr (only_prod_ids @ [idx], prod_map_to_id)))"

definition reac_step ::
  "(int \<rightharpoonup> nat) \<Rightarrow> nat \<times> RDKitAtom \<Rightarrow> nat list \<times> (nat \<rightharpoonup> nat)
     \<Rightarrow> error + nat list \<times> (nat \<rightharpoonup> nat)" where
  "reac_step prod_map_to_id ia st =
     (case (ia, st) of ((idx, atom), (only_reac_ids, reac_id_to_prod_id)) \<Rightarrow>
        (let mapno = GetAtomMapNum atom in
         if mapno > 0 then
           (case dict_getitem prod_map_to_id mapno of
              Inr v \<Rightarrow> Inr (only_reac_ids, reac_id_to_prod_id(idx \<mapsto> v))
            | Inl KeyError \<Rightarrow> Inr (only_reac_ids @ [idx], reac_id_to_prod_id)
            | Inl e \<Rightarrow> Inl e)
         else Inr (only_reac_ids @ [idx], reac_id_to_prod_id)))"

definition scan_prod :: "RDKitMol \<Rightarrow> RDKitMol \<Rightarrow> error + nat list \<times> (int \<rightharpoonup> nat)" where
  "scan_prod mol_reac mol_prod =
     for_each (enumerate 0 (GetAtoms mol_prod)) (prod_step (mapnos_of mol_reac))
       ([], Map.empty)"

definition map_reac_to_prod ::
  "RDKitMol \<Rightarrow> RDKitMol \<Rightarrow> error + (nat \<rightharpoonup> nat) \<times> nat list \<times> nat list" where
  "map_reac_to_prod mol_reac mol_prod =
     (case scan_prod mol_reac mol_prod of
        Inl e \<Rightarrow> Inl e
      | Inr (only_prod_ids, prod_map_to_id) \<Rightarrow>
          (case for_each (enumerate 0 (GetAtoms mol_reac)) (reac_step prod_map_to_id)
                  ([], Map.empty) of
             Inl e \<Rightarrow> Inl e
           | Inr (only_reac_ids, reac_id_to_prod_id) \<Rightarrow>
               Inr (reac_id_to_prod_id, only_prod_ids, only_reac_ids)))"

section \<open>The directed-bond mapper\<close>

text \<open>
  \<open>mol.GetBondBetweenAtoms(i, j)\<close>: the bond joining the two atoms in either direction, or
  \<open>None\<close>; the toolkit raises a range error for an atom index the molecule does not have.
\<close>

definition GetBondBetweenAtoms :: "RDKitMol \<Rightarrow> nat \<Rightarrow> nat \<Rightarrow> error + RDKitBond option" where
  "GetBondBetweenAtoms mol i j =
     (if i \<ge> length (GetAtoms mol) \<or> j \<ge> length (GetAtoms mol) then Inl RangeError
      else Inr (find (\<lambda>b. (GetBeginAtomIdx b = i \<and> GetEndAtomIdx b = j)
                          \<or> (GetBeginAtomIdx b = j \<and> GetEndAtomIdx b = i)) (GetBonds mol)))"

text \<open>\<open>xs[i]\<close> for an index that is never negative: an IndexError beyond the end.\<close>

definition getitem :: "'a list \<Rightarrow> nat \<Rightarrow> error + 'a" where
  "getitem xs i = (if i < length xs then Inr (xs ! i) else Inl IndexError)"

text \<open>\<open>xs[i].append(v)\<close> on a list of lists.\<close>

definition append_at :: "'a list list \<Rightarrow> nat \<Rightarrow> 'a \<Rightarrow> error + 'a list list" where
  "append_at xs i v =
     (case getitem xs i of Inl e \<Rightarrow> Inl e | Inr row \<Rightarrow> Inr (xs[i := row @ [v]]))"

text \<open>A list comprehension whose element expression may raise.\<close>

fun map_err :: "('a \<Rightarrow> error + 'b) \<Rightarrow> 'a list \<Rightarrow> error + 'b list" where
  "map_err f [] = Inr []"
| "map_err f (x # xs) =
     (case f x of
        Inl e \<Rightarrow> Inl e
      | Inr y \<Rightarrow> (case map_err f xs of Inl e \<Rightarrow> Inl e | Inr ys \<Rightarrow> Inr (y # ys)))"

text \<open>\<open>max(...)\<close> over a sequence: a ValueError when the sequence is empty.\<close>

fun py_max :: "nat list \<Rightarrow> error + nat" where
  "py_max [] = Inl ValueError"
| "py_max (x # xs) = Inr (fold max xs x)"

text \<open>\<open>range(lo, hi)\<close> over non-negative bounds.\<close>

definition py_range :: "nat \<Rightarrow> nat \<Rightarrow> nat list" where
  "py_range lo hi = [lo..<hi]"

record MapperDMPNN =
  datapoint :: RDKitMol
  concat_fdim :: nat
  f_atoms_zero_padded :: "real list list"
  num_atoms :: int
  num_bonds :: nat
  f_ini_atoms_bonds_zero_padded :: "real list list"
  atom_to_incoming_bonds :: "nat list list"
  bond_to_ini_atom :: "nat list"
  b2revb :: "nat list"
  mapping :: "nat list list"

text \<open>
  \<open>_extend_concat_feature\<close>: the reshape to \<open>[1, concat_fdim]\<close> raises a ValueError unless
  the atom's row and the bond features together have \<open>concat_fdim\<close> entries.
\<close>

definition extend_concat_feature ::
  "nat \<Rightarrow> real list \<Rightarrow> MapperDMPNN \<Rightarrow> error + MapperDMPNN" where
  "extend_concat_feature a1 bond_feature self =
     (case getitem (f_atoms_zero_padded self) a1 of
        Inl e \<Rightarrow> Inl e
      | Inr atom_row \<Rightarrow>
          (let concat_input = atom_row @ bond_feature in
           if length concat_input \<noteq> concat_fdim self then Inl ValueError
           else Inr (self\<lparr>f_ini_atoms_bonds_zero_padded :=
                             f_ini_atoms_bonds_zero_padded self @ [concat_input]\<rparr>)))"

text \<open>
  \<open>_update_concat_vector\<close> returns 0 or 1 with the state; the caller only tests it, so
  it is a truth value here. The atom ids are 1-indexed and at least 1 in every call.
\<close>

definition update_concat_vector ::
  "nat \<Rightarrow> nat \<Rightarrow> MapperDMPNN \<Rightarrow> error + bool \<times> MapperDMPNN" where
  "update_concat_vector a1 a2 self =
     (case GetBondBetweenAtoms (datapoint self) (a1 - 1) (a2 - 1) of
        Inl e \<Rightarrow> Inl e
      | Inr None \<Rightarrow> Inr (False, self)
      | Inr (Some bond) \<Rightarrow>
          (let f_bond = bond_features (Some bond) in
           case extend_concat_feature a1 f_bond self of
             Inl e \<Rightarrow> Inl e
           | Inr self \<Rightarrow>
               (case extend_concat_feature a2 f_bond self of
                  Inl e \<Rightarrow> Inl e
                | Inr self \<Rightarrow> Inr (True, self))))"

definition update_secondary_mappings ::
  "nat \<Rightarrow> nat \<Rightarrow> MapperDMPNN \<Rightarrow> error + MapperDMPNN" where
  "update_secondary_mappings a1 a2 self =
     (let b1 = num_bonds self + 1;
          b2 = num_bonds self + 2
      in case append_at (atom_to_incoming_bonds self) a2 b1 of
           Inl e \<Rightarrow> Inl e
         | Inr rows \<Rightarrow>
             (case append_at rows a1 b2 of
                Inl e \<Rightarrow> Inl e
              | Inr rows \<Rightarrow>
                  Inr (self\<lparr>atom_to_incoming_bonds := rows,
                            bond_to_ini_atom := bond_to_ini_atom self @ [a1] @ [a2],
                            b2revb := b2revb self @ [b2] @ [b1]\<rparr>)))"

definition modify_based_on_max_bonds :: "MapperDMPNN \<Rightarrow> error + MapperDMPNN" where
  "modify_based_on_max_bonds self =
     (case py_max (map length (atom_to_incoming_bonds self)) of
        Inl e \<Rightarrow> Inl e
      | Inr m \<Rightarrow>
          (let max_num_bonds = max 1 m in
           case map_err
                  (\<lambda>a. case getitem (atom_to_incoming_bonds self) a of
                         Inl e \<Rightarrow> Inl e
                       | Inr row \<Rightarrow> Inr (row @ replicate (max_num_bonds - length row) 0))
                  (py_range 0 (nat (num_atoms self + 1))) of
             Inl e \<Rightarrow> Inl e
           | Inr rows \<Rightarrow> Inr (self\<lparr>atom_to_incoming_bonds := rows\<rparr>)))"

text \<open>
  \<open>_replace_rev_bonds\<close>: \<open>self.mapping[count][np.where(self.mapping[count] == i)] = 0\<close>
  writes 0 over the entries of row \<open>count\<close> that equal \<open>i\<close>.
\<close>

definition scrub :: "nat \<Rightarrow> nat list \<Rightarrow> nat list" where
  "scrub i row = map (\<lambda>x. if x = i then 0 else x) row"

definition replace_rev_bond :: "nat \<times> nat \<Rightarrow> MapperDMPNN \<Rightarrow> error + MapperDMPNN" where
  "replace_rev_bond ci self =
     (case ci of (cnt, i) \<Rightarrow>
        (case getitem (mapping self) cnt of
           Inl e \<Rightarrow> Inl e
         | Inr row \<Rightarrow> Inr (self\<lparr>mapping := (mapping self)[cnt := scrub i row]\<rparr>)))"

definition replace_rev_bonds :: "MapperDMPNN \<Rightarrow> error + MapperDMPNN" where
  "replace_rev_bonds self = for_each (enumerate 0 (b2revb self)) replace_rev_bond self"

text \<open>The body of the pair loop of \<open>_generate_mapping\<close>.\<close>

definition visit_pair :: "nat \<Rightarrow> nat \<Rightarrow> MapperDMPNN \<Rightarrow> error + MapperDMPNN" where
  "visit_pair a1 a2 self =
     (case update_concat_vector a1 a2 self of
        Inl e \<Rightarrow> Inl e
      | Inr (False, self) \<Rightarrow> Inr self
      | Inr (True, self) \<Rightarrow>
          (case update_secondary_mappings a1 a2 self of
             Inl e \<Rightarrow> Inl e
           | Inr self \<Rightarrow> Inr (self\<lparr>num_bonds := num_bonds self + 2\<rparr>)))"

text \<open>The two nested loops of \<open>_generate_mapping\<close>: the discovery of the bonds.\<close>

definition discover_bonds :: "MapperDMPNN \<Rightarrow> error + MapperDMPNN" where
  "discover_bonds self =
     for_each (py_range 1 (nat (num_atoms self + 1)))
       (\<lambda>a1 self. for_each (py_range (a1 + 1) (nat (num_atoms self + 1))) (visit_pair a1) self)
       self"

text \<open>
  \<open>np.asarray(self.atom_to_incoming_bonds)[self.bond_to_ini_atom]\<close>: one row of the table
  for each index of the list, an IndexError for an index beyond the table.
\<close>

definition take_rows :: "'a list \<Rightarrow> nat list \<Rightarrow> error + 'a list" where
  "take_rows table idxs = map_err (getitem table) idxs"

definition generate_mapping :: "MapperDMPNN \<Rightarrow> error + MapperDMPNN" where
  "generate_mapping self =
     (case discover_bonds self of
        Inl e \<Rightarrow> Inl e
      | Inr self \<Rightarrow>
          (case modify_based_on_max_bonds self of
             Inl e \<Rightarrow> Inl e
           | Inr self \<Rightarrow>
               (case take_rows (atom_to_incoming_bonds self) (bond_to_ini_atom self) of
                  Inl e \<Rightarrow> Inl e
                | Inr m \<Rightarrow> replace_rev_bonds (self\<lparr>mapping := m\<rparr>))))"

text \<open>
  \<open>_MapperDMPNN.__init__\<close>: the fields as the constructor sets them, then the call of
  \<open>_generate_mapping\<close>. \<open>len(f_atoms_zero_padded) - 1\<close> is \<open>-1\<close> for an empty table.
\<close>

definition init_fields :: "RDKitMol \<Rightarrow> nat \<Rightarrow> real list list \<Rightarrow> MapperDMPNN" where
  "init_fields mol fdim f_atoms =
     (let n_atoms = int (length f_atoms) - 1 in
        \<lparr>datapoint = mol,
         concat_fdim = fdim,
         f_atoms_zero_padded = f_atoms,
         num_atoms = n_atoms,
         num_bonds = 0,
         f_ini_atoms_bonds_zero_padded = [replicate fdim 0],
         atom_to_incoming_bonds = map (\<lambda>i. []) (py_range 0 (nat (n_atoms + 1))),
         bond_to_ini_atom = [0],
         b2revb = [0],
         mapping = []\<rparr>)"

definition MapperDMPNN_init ::
  "RDKitMol \<Rightarrow> nat \<Rightarrow> real list list \<Rightarrow> error + MapperDMPNN" where
  "MapperDMPNN_init mol fdim f_atoms = generate_mapping (init_fields mol fdim f_atoms)"

section \<open>The mapping array in a store\<close>

text \<open>
  The rows of \<open>self.mapping\<close> are written in place, so whether two rows are the same
  storage matters. Here the last steps of \<open>_generate_mapping\<close> and \<open>_replace_rev_bonds\<close>
  run on a store: a cell holds one row, a Python list of lists is the list of the
  addresses of its inner lists, and a two-dimensional array is the list of the addresses
  of its rows, which are disjoint parts of the array's own buffer. Addresses from
  \<open>next_free\<close> on are unused.
\<close>

record np_heap =
  cells :: "nat \<Rightarrow> nat list"
  next_free :: nat

text \<open>A new array (or list of lists) with the given rows: its rows take fresh cells.\<close>

definition np_new_rows :: "nat list list \<Rightarrow> np_heap \<Rightarrow> nat list \<times> np_heap" where
  "np_new_rows rows h =
     ([next_free h..<next_free h + length rows],
      h\<lparr>cells := (\<lambda>a. if next_free h \<le> a \<and> a < next_free h + length rows
                        then rows ! (a - next_free h) else cells h a),
        next_free := next_free h + length rows\<rparr>)"

text \<open>\<open>np.asarray(list_of_lists)\<close> copies the contents of the inner lists into a new array.\<close>

definition np_asarray :: "nat list \<Rightarrow> np_heap \<Rightarrow> nat list \<times> np_heap" where
  "np_asarray refs h = np_new_rows (map (cells h) refs) h"

text \<open>
  \<open>arr[index_list]\<close>, indexing with a list, makes a new array and copies into it the row
  of each index, in order; an index beyond the array raises an IndexError.
\<close>

definition np_fancy_index :: "nat list \<Rightarrow> nat list \<Rightarrow> np_heap \<Rightarrow> error + nat list \<times> np_heap" where
  "np_fancy_index arr idxs h =
     (case take_rows arr idxs of
        Inl e \<Rightarrow> Inl e
      | Inr picked \<Rightarrow> Inr (np_new_rows (map (cells h) picked) h))"

text \<open>
  One iteration of \<open>_replace_rev_bonds\<close>: \<open>self.mapping[count]\<close>, indexing with an integer,
  is a view of row \<open>count\<close>, that is, its cell, and the assignment writes to that cell.
\<close>

definition replace_rev_bond_store :: "nat list \<Rightarrow> nat \<times> nat \<Rightarrow> np_heap \<Rightarrow> error + np_heap" where
  "replace_rev_bond_store m ci h =
     (case ci of (cnt, i) \<Rightarrow>
        (case getitem m cnt of
           Inl e \<Rightarrow> Inl e
         | Inr view \<Rightarrow> Inr (h\<lparr>cells := (cells h)(view := scrub i (cells h view))\<rparr>)))"

definition replace_rev_bonds_store :: "nat list \<Rightarrow> nat list \<Rightarrow> np_heap \<Rightarrow> error + np_heap" where
  "replace_rev_bonds_store m revs h = for_each (enumerate 0 revs) (replace_rev_bond_store m) h"

text \<open>
  The end of \<open>_generate_mapping\<close>: \<open>self.mapping = np.asarray(self.atom_to_incoming_bonds)
  [self.bond_to_ini_atom]\<close>, then \<open>self._replace_rev_bonds()\<close>. The result is the array
  \<open>self.mapping\<close> and the store.
\<close>

definition mapping_store ::
  "nat list \<Rightarrow> nat list \<Rightarrow> nat list \<Rightarrow> np_heap \<Rightarrow> error + nat list \<times> np_heap" where
  "mapping_store refs ini revs h =
     (case np_asarray refs h of (arr, h) \<Rightarrow>
        (case np_fancy_index arr ini h of
           Inl e \<Rightarrow> Inl e
         | Inr (m, h) \<Rightarrow>
             (case replace_rev_bonds_store m revs h of
                Inl e \<Rightarrow> Inl e
              | Inr h \<Rightarrow> Inr (m, h))))"

section \<open>Example inputs and proof vocabulary\<close>

definition carbon :: RDKitAtom where
  "carbon = \<lparr>GetAtomicNum = 6, GetTotalDegree = 4, GetFormalCharge = 0, GetChiralTag = 0,
     GetTotalNumHs = 4, GetHybridization = ''SP3'', GetIsAromatic = False,
     GetMass = 12, GetAtomMapNum = 0\<rparr>"

definition prod_unmatched :: "int set \<Rightarrow> RDKitAtom \<Rightarrow> bool" where
  "prod_unmatched R a = (\<not> (0 < GetAtomMapNum a \<and> GetAtomMapNum a \<in> R))"

definition reac_unmatched :: "(int \<rightharpoonup> nat) \<Rightarrow> RDKitAtom \<Rightarrow> bool" where
  "reac_unmatched tbl a = (\<not> (0 < GetAtomMapNum a \<and> GetAtomMapNum a \<in> dom tbl))"

definition prod_table :: "RDKitAtom list \<Rightarrow> int \<rightharpoonup> nat" where
  "prod_table atoms m =
     (if \<exists>j<length atoms. GetAtomMapNum (atoms ! j) = m \<and> 0 < m
      then Some (GREATEST j. j < length atoms \<and> GetAtomMapNum (atoms ! j) = m)
      else None)"

definition reac_dict :: "(int \<rightharpoonup> nat) \<Rightarrow> RDKitAtom list \<Rightarrow> nat \<rightharpoonup> nat" where
  "reac_dict tbl atoms i =
     (if i < length atoms \<and> \<not> reac_unmatched tbl (atoms ! i)
      then tbl (GetAtomMapNum (atoms ! i)) else None)"

definition mapped_atom :: "int \<Rightarrow> RDKitAtom" where
  "mapped_atom n = carbon\<lparr>GetAtomMapNum := n\<rparr>"

definition reac_example :: RDKitMol where
  "reac_example = \<lparr>GetAtoms = [mapped_atom 1, mapped_atom 0, mapped_atom 2], GetBonds = []\<rparr>"

definition prod_example :: RDKitMol where
  "prod_example = \<lparr>GetAtoms = [mapped_atom 0, mapped_atom 1, mapped_atom 3], GetBonds = []\<rparr>"

text \<open>A reactant and a product that each have an atom with a negative map number.\<close>

definition reac_negative :: RDKitMol where
  "reac_negative = \<lparr>GetAtoms = [mapped_atom (- 1), mapped_atom 1], GetBonds = []\<rparr>"

definition prod_negative :: RDKitMol where
  "prod_negative = \<lparr>GetAtoms = [mapped_atom 1, mapped_atom (- 1)], GetBonds = []\<rparr>"

definition bond_between :: "nat \<Rightarrow> nat \<Rightarrow> RDKitBond" where
  "bond_between i j = \<lparr>GetBeginAtomIdx = i, GetEndAtomIdx = j, b_Feats = replicate 13 0\<rparr>"

definition chain3 :: RDKitMol where
  "chain3 = \<lparr>GetAtoms = [carbon, carbon, carbon], GetBonds = [bond_between 0 1, bond_between 1 2]\<rparr>"

definition f_atoms3 :: "real list list" where
  "f_atoms3 = [[0], [1], [2], [3]]"

text \<open>
  The atom pairs in the order the two loops visit them (\<open>hi\<close> is \<open>num_atoms + 1\<close>), the
  test the loop body makes on a pair, and the pairs on which it finds a bond.
\<close>

definition all_pairs :: "nat \<Rightarrow> (nat \<times> nat) list" where
  "all_pairs hi = concat (map (\<lambda>a1. map (Pair a1) (py_range (a1 + 1) hi)) (py_range 1 hi))"

definition bonded :: "RDKitMol \<Rightarrow> nat \<times> nat \<Rightarrow> bool" where
  "bonded mol p =
     (case GetBondBetweenAtoms mol (fst p - 1) (snd p - 1) of
        Inr (Some b) \<Rightarrow> True
      | _ \<Rightarrow> False)"

definition discovered :: "RDKitMol \<Rightarrow> nat \<Rightarrow> (nat \<times> nat) list" where
  "discovered mol hi = filter (bonded mol) (all_pairs hi)"

text \<open>
  The ids of the directed bonds that end at atom \<open>a\<close>, in the order of discovery: the
  \<open>j\<close>-th discovered pair \<open>(a1, a2)\<close> gives \<open>2j + 1\<close> to \<open>a2\<close> and \<open>2j + 2\<close> to \<open>a1\<close>.
\<close>

definition incoming :: "(nat \<times> nat) list \<Rightarrow> nat \<Rightarrow> nat list" where
  "incoming D a =
     concat (map (\<lambda>j. (if snd (D ! j) = a then [2 * j + 1] else [])
                     @ (if fst (D ! j) = a then [2 * j + 2] else []))
               [0..<length D])"

text \<open>What one iteration of the pair loop does to the state when it finds the bond.\<close>

definition add_bond :: "nat \<Rightarrow> nat \<Rightarrow> RDKitBond \<Rightarrow> MapperDMPNN \<Rightarrow> MapperDMPNN" where
  "add_bond a1 a2 bond s =
     s\<lparr>f_ini_atoms_bonds_zero_padded :=
         f_ini_atoms_bonds_zero_padded s
         @ [f_atoms_zero_padded s ! a1 @ bond_features (Some bond),
            f_atoms_zero_padded s ! a2 @ bond_features (Some bond)],
       atom_to_incoming_bonds :=
         ((atom_to_incoming_bonds s)
            [a2 := atom_to_incoming_bonds s ! a2 @ [num_bonds s + 1]])
            [a1 := ((atom_to_incoming_bonds s)
                      [a2 := atom_to_incoming_bonds s ! a2 @ [num_bonds s + 1]]) ! a1
                   @ [num_bonds s + 2]],
       bond_to_ini_atom := bond_to_ini_atom s @ [a1, a2],
       b2revb := b2revb s @ [num_bonds s + 2, num_bonds s + 1],
       num_bonds := num_bonds s + 2\<rparr>"

text \<open>
  The state of the mapper after the pair loop has found the pairs \<open>D\<close>, in this order,
  starting from the state \<open>s0\<close> the constructor sets up.
\<close>

definition discovery_inv :: "MapperDMPNN \<Rightarrow> (nat \<times> nat) list \<Rightarrow> MapperDMPNN \<Rightarrow> bool" where
  "discovery_inv s0 D s =
     (datapoint s = datapoint s0 \<and> concat_fdim s = concat_fdim s0
      \<and> f_atoms_zero_padded s = f_atoms_zero_padded s0 \<and> num_atoms s = num_atoms s0
      \<and> mapping s = mapping s0
      \<and> num_bonds s = 2 * length D
      \<and> bond_to_ini_atom s = 0 # concat (map (\<lambda>p. [fst p, snd p]) D)
      \<and> b2revb s = 0 # concat (map (\<lambda>j. [2 * j + 2, 2 * j + 1]) [0..<length D])
      \<and> length (f_ini_atoms_bonds_zero_padded s) = 2 * length D + 1
      \<and> f_ini_atoms_bonds_zero_padded s ! 0 = replicate (concat_fdim s0) 0
      \<and> (\<forall>r\<in>set (f_ini_atoms_bonds_zero_padded s). length r = concat_fdim s0)
      \<and> length (atom_to_incoming_bonds s) = length (atom_to_incoming_bonds s0)
      \<and> (\<forall>a<length (atom_to_incoming_bonds s0). atom_to_incoming_bonds s ! a = incoming D a)
      \<and> (\<forall>p\<in>set D. fst p < length (atom_to_incoming_bonds s0)
                     \<and> snd p < length (atom_to_incoming_bonds s0)))"

text \<open>
  The width \<open>max(1, max(len(row)))\<close> the padding phase computes and the row it makes of
  a list of incoming bonds.
\<close>

definition max_width :: "nat list list \<Rightarrow> nat" where
  "max_width rows = max 1 (Max (set (map length rows)))"

definition pad_row :: "nat \<Rightarrow> nat list \<Rightarrow> nat list" where
  "pad_row m row = row @ replicate (m - length row) 0"

text \<open>The lexicographic order on atom pairs.\<close>

definition lex_less :: "nat \<times> nat \<Rightarrow> nat \<times> nat \<Rightarrow> bool" where
  "lex_less p q = (fst p < fst q \<or> (fst p = fst q \<and> snd p < snd q))"

text \<open>The mapper of the open chain 1-2-3, as the constructor builds it.\<close>

definition chain3_mapper :: MapperDMPNN where
  "chain3_mapper =
     \<lparr>datapoint = chain3, concat_fdim = 15, f_atoms_zero_padded = f_atoms3,
      num_atoms = 3, num_bonds = 4,
      f_ini_atoms_bonds_zero_padded =
        [replicate 15 0, 1 # replicate 14 0, 2 # replicate 14 0, 2 # replicate 14 0,
         3 # replicate 14 0],
      atom_to_incoming_bonds = [[0, 0], [2, 0], [1, 4], [3, 0]],
      bond_to_ini_atom = [0, 1, 2, 2, 3], b2revb = [0, 2, 1, 4, 3],
      mapping = [[0, 0], [0, 0], [0, 4], [1, 0], [0, 0]]\<rparr>"

text \<open>The mapper of the open chain 1-2-3 after the discovery loop, before the padding.\<close>

definition chain3_discovery :: MapperDMPNN where
  "chain3_discovery =
     chain3_mapper\<lparr>atom_to_incoming_bonds := [[], [2], [1, 4], [3]], mapping := []\<rparr>"

text \<open>
  A molecule of the toolkit is well formed: a bond joins two different atoms of the
  molecule, and no two bonds join the same two atoms. \<open>bond_pair\<close> is the pair of
  1-indexed atom ids of a bond, the smaller first.
\<close>

definition bond_pair :: "RDKitBond \<Rightarrow> nat \<times> nat" where
  "bond_pair b =
     (min (GetBeginAtomIdx b) (GetEndAtomIdx b) + 1, max (GetBeginAtomIdx b) (GetEndAtomIdx b) + 1)"

definition wf_mol :: "RDKitMol \<Rightarrow> bool" where
  "wf_mol mol =
     ((\<forall>b\<in>set (GetBonds mol).
          GetBeginAtomIdx b < length (GetAtoms mol) \<and> GetEndAtomIdx b < length (GetAtoms mol)
          \<and> GetBeginAtomIdx b \<noteq> GetEndAtomIdx b)
      \<and> distinct (map bond_pair (GetBonds mol)))"

text \<open>Three atoms and no bond.\<close>

definition no_bonds3 :: RDKitMol where
  "no_bonds3 = \<lparr>GetAtoms = [carbon, carbon, carbon], GetBonds = []\<rparr>"

text \<open>
  A store that holds the padded incoming-bond lists of the open chain 1-2-3 as four
  Python lists, at the addresses 0 to 3.
\<close>

definition chain3_refs :: "nat list" where
  "chain3_refs = [0, 1, 2, 3]"

definition chain3_heap :: np_heap where
  "chain3_heap =
     snd (np_new_rows (atom_to_incoming_bonds chain3_mapper) \<lparr>cells = (\<lambda>a. []), next_free = 0\<rparr>)"

section \<open>Properties of the encoders\<close>

lemma ATOM_FDIM_value: "ATOM_FDIM = 133"
  by (simp add: ATOM_FDIM_def MAX_ATOMIC_NUM_def ATOM_FEATURES_atomic_num_def
      ATOM_FEATURES_degree_def ATOM_FEATURES_formal_charge_def ATOM_FEATURES_chiral_tag_def
      ATOM_FEATURES_num_Hs_def ATOM_FEATURES_HYBRIDIZATION_def)

lemma list_index_found:
  "i < length xs \<Longrightarrow> xs ! i = v \<Longrightarrow> (\<forall>j<i. xs ! j \<noteq> v) \<Longrightarrow> list_index xs v = Inr i"
proof (induction xs arbitrary: i)
  case Nil
  then show ?case by simp
next
  case (Cons x xs)
  show ?case
  proof (cases i)
    case 0
    with Cons.prems show ?thesis by simp
  next
    case (Suc k)
    from Cons.prems(3) Suc have "x \<noteq> v" by auto
    moreover from Cons.prems Suc have "list_index xs v = Inr k"
      by (intro Cons.IH) auto
    ultimately show ?thesis using Suc by simp
  qed
qed

lemma list_index_upt:
  "0 \<le> v \<Longrightarrow> nat v < n \<Longrightarrow> list_index (map int [0..<n]) v = Inr (nat v)"
  by (rule list_index_found) auto

text \<open>
  C7. For the null input the encoders return fixed sentinel vectors: \<open>atom_features(None)\<close>
  is the all-zero vector of length \<open>ATOM_FDIM\<close> (133), whatever the other arguments
  are, and \<open>bond_features(None)\<close> is 1 followed by 13 zeros, of length \<open>BOND_FDIM\<close> = 14.
  Both are values of pure functions, so every call returns them.
\<close>

theorem null_encoders_sentinel:
  "atom_features float_mul None functional_groups only_atom_num = replicate ATOM_FDIM 0
   \<and> length (atom_features float_mul None functional_groups only_atom_num) = ATOM_FDIM
   \<and> bond_features None = 1 # replicate 13 0
   \<and> length (bond_features None) = BOND_FDIM
   \<and> BOND_FDIM = 14
   \<and> ATOM_FDIM = 133"
  by (simp add: atom_features_def bond_features_def BOND_FDIM_def ATOM_FDIM_value)

text \<open>
  C8. For an atom of atomic number 6 (carbon), \<open>get_atomic_num_one_hot\<close> with the
  allowable set \<open>list(range(100))\<close> and the unknown bucket returns a vector of length 101
  with a 1 at index 5 (the atomic number minus 1) and 0 everywhere else.
\<close>

theorem carbon_atomic_num_one_hot:
  assumes "GetAtomicNum atom = 6"
  shows "get_atomic_num_one_hot atom ATOM_FEATURES_atomic_num True
           = replicate 5 0 @ [1] @ replicate 95 0
         \<and> length (get_atomic_num_one_hot atom ATOM_FEATURES_atomic_num True) = 101
         \<and> (\<forall>i<101. get_atomic_num_one_hot atom ATOM_FEATURES_atomic_num True ! i
                      = (if i = 5 then 1 else 0))"
proof -
  have idx: "list_index ATOM_FEATURES_atomic_num (5::int) = Inr 5"
    unfolding ATOM_FEATURES_atomic_num_def MAX_ATOMIC_NUM_def
    using list_index_upt [of 5 100] by simp
  have enc: "get_atomic_num_one_hot atom ATOM_FEATURES_atomic_num True
               = (replicate 101 0)[5 := 1]"
    using assms idx
    by (simp add: get_atomic_num_one_hot_def one_hot_encode_def Let_def
        ATOM_FEATURES_atomic_num_def MAX_ATOMIC_NUM_def)
  have "replicate 101 (0::real) = replicate 5 0 @ 0 # replicate 95 0"
    by (simp flip: replicate_Suc replicate_add)
  then have shape: "(replicate 101 (0::real))[5 := 1] = replicate 5 0 @ [1] @ replicate 95 0"
    by (simp add: list_update_append)
  have entries: "\<forall>i<101. (replicate 101 (0::real))[5 := 1] ! i = (if i = 5 then 1 else 0)"
    by (simp add: nth_list_update)
  show ?thesis
    unfolding enc using shape entries by simp
qed

theorem carbon_atomic_num_one_hot_witness:
  "GetAtomicNum carbon = 6
   \<and> get_atomic_num_one_hot carbon ATOM_FEATURES_atomic_num True ! 5 = 1
   \<and> get_atomic_num_one_hot carbon ATOM_FEATURES_atomic_num True ! 6 = 0
   \<and> length (get_atomic_num_one_hot carbon ATOM_FEATURES_atomic_num True) = 101"
proof -
  have h: "GetAtomicNum carbon = 6" by (simp add: carbon_def)
  from carbon_atomic_num_one_hot [OF h]
  have len: "length (get_atomic_num_one_hot carbon ATOM_FEATURES_atomic_num True) = 101"
    and entries: "\<forall>i<101. get_atomic_num_one_hot carbon ATOM_FEATURES_atomic_num True ! i
                      = (if i = 5 then 1 else 0)"
    by blast+
  from entries have "get_atomic_num_one_hot carbon ATOM_FEATURES_atomic_num True ! 5 = 1"
    and "get_atomic_num_one_hot carbon ATOM_FEATURES_atomic_num True ! 6 = 0"
    by simp_all
  with h len show ?thesis by simp
qed

section \<open>Properties of the reaction atom mapping\<close>

lemma for_each_append:
  "for_each (xs @ ys) body s
     = (case for_each xs body s of Inl e \<Rightarrow> Inl e | Inr s' \<Rightarrow> for_each ys body s')"
  by (induction xs arbitrary: s) (auto split: sum.splits)

lemma enumerate_snoc: "enumerate n (xs @ [x]) = enumerate n xs @ [(n + length xs, x)]"
  by (simp add: enumerate_append_eq)

lemma filter_upt_snoc:
  "filter (\<lambda>i. P ((xs @ [a]) ! i)) [0..<length xs] = filter (\<lambda>i. P (xs ! i)) [0..<length xs]"
  by (rule filter_cong) (auto simp: nth_append)

lemma prod_step_eq:
  "prod_step R (i, a) (only, tbl)
     = Inr (if prod_unmatched R a then only @ [i] else only,
            if 0 < GetAtomMapNum a then tbl(GetAtomMapNum a \<mapsto> i) else tbl)"
  by (simp add: prod_step_def prod_unmatched_def Let_def)

lemma reac_step_eq:
  "reac_step tbl (i, a) (only, d)
     = Inr (if reac_unmatched tbl a then only @ [i] else only,
            if reac_unmatched tbl a then d else d(i \<mapsto> the (tbl (GetAtomMapNum a))))"
  by (auto simp: reac_step_def reac_unmatched_def dict_getitem_def Let_def split: option.splits)

lemma prod_table_snoc:
  "prod_table (atoms @ [a])
     = (if 0 < GetAtomMapNum a then (prod_table atoms)(GetAtomMapNum a \<mapsto> length atoms)
        else prod_table atoms)"
proof (rule ext)
  fix m
  show "prod_table (atoms @ [a]) m
     = (if 0 < GetAtomMapNum a then (prod_table atoms)(GetAtomMapNum a \<mapsto> length atoms)
        else prod_table atoms) m"
  proof (cases "GetAtomMapNum a = m \<and> 0 < m")
    case True
    have "(GREATEST j. j < length (atoms @ [a]) \<and> GetAtomMapNum ((atoms @ [a]) ! j) = m)
            = length atoms"
      using True by (intro Greatest_equality) auto
    moreover have "\<exists>j<length (atoms @ [a]). GetAtomMapNum ((atoms @ [a]) ! j) = m \<and> 0 < m"
      using True by (intro exI [of _ "length atoms"]) simp
    ultimately show ?thesis
      using True unfolding prod_table_def by simp
  next
    case False
    have same: "(j < length (atoms @ [a]) \<and> GetAtomMapNum ((atoms @ [a]) ! j) = m \<and> 0 < m)
          = (j < length atoms \<and> GetAtomMapNum (atoms ! j) = m \<and> 0 < m)" for j
      using False by (auto simp: nth_append less_Suc_eq)
    show ?thesis
    proof (cases "0 < m")
      case True
      with same have same': "(j < length (atoms @ [a]) \<and> GetAtomMapNum ((atoms @ [a]) ! j) = m)
          = (j < length atoms \<and> GetAtomMapNum (atoms ! j) = m)" for j
        by simp
      have ex: "(\<exists>j<length (atoms @ [a]). GetAtomMapNum ((atoms @ [a]) ! j) = m \<and> 0 < m)
         = (\<exists>j<length atoms. GetAtomMapNum (atoms ! j) = m \<and> 0 < m)"
        using same by blast
      have "prod_table (atoms @ [a]) m = prod_table atoms m"
        unfolding prod_table_def ex same' ..
      then show ?thesis using False True by auto
    next
      case False
      then show ?thesis by (simp add: prod_table_def)
    qed
  qed
qed

lemma prod_table_Some:
  "prod_table atoms m = Some j \<Longrightarrow> j < length atoms \<and> GetAtomMapNum (atoms ! j) = m \<and> 0 < m"
proof -
  assume a: "prod_table atoms m = Some j"
  then have ex: "\<exists>k<length atoms. GetAtomMapNum (atoms ! k) = m \<and> 0 < m"
    by (auto simp: prod_table_def split: if_splits)
  then obtain k where k: "k < length atoms \<and> GetAtomMapNum (atoms ! k) = m" by blast
  from a ex have j: "j = (GREATEST j. j < length atoms \<and> GetAtomMapNum (atoms ! j) = m)"
    by (simp add: prod_table_def)
  let ?P = "\<lambda>j. j < length atoms \<and> GetAtomMapNum (atoms ! j) = m"
  have "?P (Greatest ?P)"
    by (rule GreatestI_nat [where P = ?P and b = "length atoms"]) (use k in auto)
  with ex j show ?thesis by blast
qed

lemma dom_prod_table:
  "dom (prod_table atoms) = {m. 0 < m \<and> m \<in> GetAtomMapNum ` set atoms}"
  by (auto simp: prod_table_def dom_def in_set_conv_nth image_iff) (metis nth_mem)

lemma for_each_prod_step:
  "for_each (enumerate 0 atoms) (prod_step R) ([], Map.empty)
     = Inr (filter (\<lambda>i. prod_unmatched R (atoms ! i)) [0..<length atoms], prod_table atoms)"
proof (induction atoms rule: rev_induct)
  case Nil
  show ?case by (simp add: prod_table_def fun_eq_iff)
next
  case (snoc a atoms)
  show ?case
    by (simp add: enumerate_snoc for_each_append snoc.IH prod_step_eq filter_upt_snoc
        prod_table_snoc)
qed

lemma reac_dict_snoc:
  "reac_dict tbl (atoms @ [a])
     = (if reac_unmatched tbl a then reac_dict tbl atoms
        else (reac_dict tbl atoms)(length atoms \<mapsto> the (tbl (GetAtomMapNum a))))"
  by (rule ext) (auto simp: reac_dict_def reac_unmatched_def nth_append less_Suc_eq)

lemma for_each_reac_step:
  "for_each (enumerate 0 atoms) (reac_step tbl) ([], Map.empty)
     = Inr (filter (\<lambda>i. reac_unmatched tbl (atoms ! i)) [0..<length atoms],
            reac_dict tbl atoms)"
proof (induction atoms rule: rev_induct)
  case Nil
  show ?case by (simp add: reac_dict_def fun_eq_iff)
next
  case (snoc a atoms)
  show ?case
    by (simp add: enumerate_snoc for_each_append snoc.IH reac_step_eq filter_upt_snoc
        reac_dict_snoc)
qed

lemma map_reac_to_prod_eq:
  "map_reac_to_prod mol_reac mol_prod
     = Inr (reac_dict (prod_table (GetAtoms mol_prod)) (GetAtoms mol_reac),
            filter (\<lambda>i. prod_unmatched (mapnos_of mol_reac) (GetAtoms mol_prod ! i))
              [0..<length (GetAtoms mol_prod)],
            filter (\<lambda>i. reac_unmatched (prod_table (GetAtoms mol_prod)) (GetAtoms mol_reac ! i))
              [0..<length (GetAtoms mol_reac)])"
  by (simp add: map_reac_to_prod_def scan_prod_def for_each_prod_step for_each_reac_step)


lemma scan_prod_eq:
  "scan_prod mol_reac mol_prod
     = Inr (filter (\<lambda>i. prod_unmatched (mapnos_of mol_reac) (GetAtoms mol_prod ! i))
              [0..<length (GetAtoms mol_prod)],
            prod_table (GetAtoms mol_prod))"
  by (simp add: scan_prod_def for_each_prod_step)

lemma prod_table_greatest:
  assumes "prod_table atoms m = Some p" and "q < length atoms" and "GetAtomMapNum (atoms ! q) = m"
  shows "q \<le> p"
proof -
  from assms(1) have ex: "\<exists>k<length atoms. GetAtomMapNum (atoms ! k) = m \<and> 0 < m"
    by (auto simp: prod_table_def split: if_splits)
  with assms(1) have p: "p = (GREATEST j. j < length atoms \<and> GetAtomMapNum (atoms ! j) = m)"
    by (simp add: prod_table_def)
  let ?P = "\<lambda>j. j < length atoms \<and> GetAtomMapNum (atoms ! j) = m"
  have "q \<le> Greatest ?P"
    by (rule Greatest_le_nat [where P = ?P and b = "length atoms"]) (use assms(2,3) in auto)
  then show ?thesis unfolding p .
qed

lemma mapnos_of_eq: "mapnos_of mol = GetAtomMapNum ` set (GetAtoms mol)"
  by (simp add: mapnos_of_def)

text \<open>
  C6, as amended. \<open>map_reac_to_prod\<close> never raises on a lookup miss: for every pair of
  molecules it returns a result. The product table has the positive map numbers of the
  product atoms as keys, each with the index of the last product atom that carries it.
  Each reactant atom with a map number that is 0 or negative, and each reactant atom
  whose positive map number is not a key of the product table, is appended to the
  only-reactant list and gets no dictionary entry; each product atom with a map number
  that is 0 or negative, and each product atom whose positive map number is not among
  the map numbers of the reactant atoms, is appended to the only-product list; every
  other reactant atom gets exactly one dictionary entry, the index the product table
  holds for its map number, and is not on the only-reactant list. The lists hold the
  indices in increasing order, each once, and the dictionary has no other entries.
\<close>

theorem map_reac_to_prod_lookup_misses:
  "\<exists>reac_id_to_prod_id only_prod_ids only_reac_ids prod_map_to_id.
     map_reac_to_prod mol_reac mol_prod
       = Inr (reac_id_to_prod_id, only_prod_ids, only_reac_ids)
     \<and> dom prod_map_to_id = {m. 0 < m \<and> m \<in> GetAtomMapNum ` set (GetAtoms mol_prod)}
     \<and> (\<forall>m p. prod_map_to_id m = Some p \<longrightarrow>
            p < length (GetAtoms mol_prod) \<and> GetAtomMapNum (GetAtoms mol_prod ! p) = m
            \<and> (\<forall>q<length (GetAtoms mol_prod).
                   GetAtomMapNum (GetAtoms mol_prod ! q) = m \<longrightarrow> q \<le> p))
     \<and> only_reac_ids
         = filter (\<lambda>i. GetAtomMapNum (GetAtoms mol_reac ! i) \<le> 0
                       \<or> GetAtomMapNum (GetAtoms mol_reac ! i) \<notin> dom prod_map_to_id)
             [0..<length (GetAtoms mol_reac)]
     \<and> only_prod_ids
         = filter (\<lambda>j. GetAtomMapNum (GetAtoms mol_prod ! j) \<le> 0
                       \<or> GetAtomMapNum (GetAtoms mol_prod ! j)
                           \<notin> GetAtomMapNum ` set (GetAtoms mol_reac))
             [0..<length (GetAtoms mol_prod)]
     \<and> (\<forall>i<length (GetAtoms mol_reac).
          (GetAtomMapNum (GetAtoms mol_reac ! i) \<le> 0
             \<longrightarrow> i \<in> set only_reac_ids \<and> reac_id_to_prod_id i = None)
          \<and> (0 < GetAtomMapNum (GetAtoms mol_reac ! i)
               \<and> GetAtomMapNum (GetAtoms mol_reac ! i) \<notin> dom prod_map_to_id
               \<longrightarrow> i \<in> set only_reac_ids \<and> reac_id_to_prod_id i = None)
          \<and> (\<not> GetAtomMapNum (GetAtoms mol_reac ! i) \<le> 0
               \<and> \<not> (0 < GetAtomMapNum (GetAtoms mol_reac ! i)
                       \<and> GetAtomMapNum (GetAtoms mol_reac ! i) \<notin> dom prod_map_to_id)
               \<longrightarrow> i \<notin> set only_reac_ids
                   \<and> (\<exists>p. reac_id_to_prod_id i = Some p
                          \<and> prod_map_to_id (GetAtomMapNum (GetAtoms mol_reac ! i)) = Some p
                          \<and> p < length (GetAtoms mol_prod)
                          \<and> GetAtomMapNum (GetAtoms mol_prod ! p)
                              = GetAtomMapNum (GetAtoms mol_reac ! i))))
     \<and> (\<forall>i. length (GetAtoms mol_reac) \<le> i \<longrightarrow> reac_id_to_prod_id i = None)
     \<and> (\<forall>j<length (GetAtoms mol_prod).
          (GetAtomMapNum (GetAtoms mol_prod ! j) \<le> 0 \<longrightarrow> j \<in> set only_prod_ids)
          \<and> (0 < GetAtomMapNum (GetAtoms mol_prod ! j)
               \<and> GetAtomMapNum (GetAtoms mol_prod ! j)
                   \<notin> GetAtomMapNum ` set (GetAtoms mol_reac)
               \<longrightarrow> j \<in> set only_prod_ids)
          \<and> (0 < GetAtomMapNum (GetAtoms mol_prod ! j)
               \<and> GetAtomMapNum (GetAtoms mol_prod ! j)
                   \<in> GetAtomMapNum ` set (GetAtoms mol_reac)
               \<longrightarrow> j \<notin> set only_prod_ids))
     \<and> distinct only_reac_ids \<and> distinct only_prod_ids"
proof -
  let ?reac = "GetAtoms mol_reac" and ?prod = "GetAtoms mol_prod"
  let ?R = "GetAtomMapNum ` set ?reac"
  let ?tbl = "prod_table ?prod"
  let ?d = "reac_dict ?tbl ?reac"
  let ?only_prod = "filter (\<lambda>j. GetAtomMapNum (?prod ! j) \<le> 0 \<or> GetAtomMapNum (?prod ! j) \<notin> ?R)
                      [0..<length ?prod]"
  let ?only_reac = "filter (\<lambda>i. GetAtomMapNum (?reac ! i) \<le> 0
                                \<or> GetAtomMapNum (?reac ! i) \<notin> dom ?tbl) [0..<length ?reac]"
  have pu: "prod_unmatched (mapnos_of mol_reac) a
              = (GetAtomMapNum a \<le> 0 \<or> GetAtomMapNum a \<notin> ?R)" for a
    by (auto simp: prod_unmatched_def mapnos_of_eq)
  have ru: "reac_unmatched ?tbl a = (GetAtomMapNum a \<le> 0 \<or> GetAtomMapNum a \<notin> dom ?tbl)" for a
    by (auto simp: reac_unmatched_def)
  have res: "map_reac_to_prod mol_reac mol_prod = Inr (?d, ?only_prod, ?only_reac)"
    unfolding map_reac_to_prod_eq pu ru ..
  have tbl: "\<forall>m p. ?tbl m = Some p \<longrightarrow>
            p < length ?prod \<and> GetAtomMapNum (?prod ! p) = m
            \<and> (\<forall>q<length ?prod. GetAtomMapNum (?prod ! q) = m \<longrightarrow> q \<le> p)"
    using prod_table_Some prod_table_greatest by blast
  have reac: "(GetAtomMapNum (?reac ! i) \<le> 0 \<longrightarrow> i \<in> set ?only_reac \<and> ?d i = None)
          \<and> (0 < GetAtomMapNum (?reac ! i) \<and> GetAtomMapNum (?reac ! i) \<notin> dom ?tbl
               \<longrightarrow> i \<in> set ?only_reac \<and> ?d i = None)
          \<and> (\<not> GetAtomMapNum (?reac ! i) \<le> 0
               \<and> \<not> (0 < GetAtomMapNum (?reac ! i) \<and> GetAtomMapNum (?reac ! i) \<notin> dom ?tbl)
               \<longrightarrow> i \<notin> set ?only_reac
                   \<and> (\<exists>p. ?d i = Some p \<and> ?tbl (GetAtomMapNum (?reac ! i)) = Some p
                          \<and> p < length ?prod
                          \<and> GetAtomMapNum (?prod ! p) = GetAtomMapNum (?reac ! i)))"
    if "i < length ?reac" for i
  proof -
    have matched: "\<exists>p. ?d i = Some p \<and> ?tbl (GetAtomMapNum (?reac ! i)) = Some p
                  \<and> p < length ?prod
                  \<and> GetAtomMapNum (?prod ! p) = GetAtomMapNum (?reac ! i)"
      if "\<not> reac_unmatched ?tbl (?reac ! i)"
    proof -
      from that obtain p where p: "?tbl (GetAtomMapNum (?reac ! i)) = Some p"
        by (auto simp: reac_unmatched_def)
      from prod_table_Some [OF p] p that \<open>i < length ?reac\<close> show ?thesis
        by (simp add: reac_dict_def)
    qed
    show ?thesis
      using that matched by (auto simp: reac_unmatched_def reac_dict_def)
  qed
  have beyond: "\<forall>i. length ?reac \<le> i \<longrightarrow> ?d i = None"
    by (simp add: reac_dict_def)
  have prod: "(GetAtomMapNum (?prod ! j) \<le> 0 \<longrightarrow> j \<in> set ?only_prod)
          \<and> (0 < GetAtomMapNum (?prod ! j) \<and> GetAtomMapNum (?prod ! j) \<notin> ?R
               \<longrightarrow> j \<in> set ?only_prod)
          \<and> (0 < GetAtomMapNum (?prod ! j) \<and> GetAtomMapNum (?prod ! j) \<in> ?R
               \<longrightarrow> j \<notin> set ?only_prod)"
    if "j < length ?prod" for j
    using that by auto
  show ?thesis
    apply (rule exI [of _ ?d], rule exI [of _ ?only_prod], rule exI [of _ ?only_reac],
        rule exI [of _ ?tbl])
    apply (rule conjI, rule res)
    apply (rule conjI, rule dom_prod_table)
    apply (rule conjI, rule tbl)
    apply (rule conjI, rule refl)
    apply (rule conjI, rule refl)
    apply (rule conjI)
     apply (rule allI, rule impI, erule reac)
    apply (rule conjI, rule beyond)
    apply (rule conjI)
     apply (rule allI, rule impI, erule prod)
    apply simp
    done
qed


theorem map_reac_to_prod_lookup_misses_witness:
  "length (GetAtoms reac_example) = 3 \<and> length (GetAtoms prod_example) = 3
   \<and> GetAtomMapNum (GetAtoms reac_example ! 0) = 1
   \<and> GetAtomMapNum (GetAtoms reac_example ! 1) = 0
   \<and> GetAtomMapNum (GetAtoms reac_example ! 2) = 2
   \<and> GetAtomMapNum (GetAtoms prod_example ! 0) = 0
   \<and> GetAtomMapNum (GetAtoms prod_example ! 1) = 1
   \<and> GetAtomMapNum (GetAtoms prod_example ! 2) = 3
   \<and> (\<exists>d only_prod_ids only_reac_ids.
         map_reac_to_prod reac_example prod_example = Inr (d, only_prod_ids, only_reac_ids)
         \<and> only_reac_ids = [1, 2] \<and> only_prod_ids = [0, 2]
         \<and> d 0 = Some 1 \<and> d 1 = None \<and> d 2 = None)"
proof -
  have len: "length (GetAtoms reac_example) = 3" "length (GetAtoms prod_example) = 3"
    by (simp_all add: reac_example_def prod_example_def)
  have nums: "GetAtomMapNum (GetAtoms reac_example ! 0) = 1"
    "GetAtomMapNum (GetAtoms reac_example ! 1) = 0"
    "GetAtomMapNum (GetAtoms reac_example ! 2) = 2"
    "GetAtomMapNum (GetAtoms prod_example ! 0) = 0"
    "GetAtomMapNum (GetAtoms prod_example ! 1) = 1"
    "GetAtomMapNum (GetAtoms prod_example ! 2) = 3"
    by (simp_all add: reac_example_def prod_example_def mapped_atom_def)
  have nums1: "GetAtomMapNum (GetAtoms reac_example ! Suc 0) = 0"
    "GetAtomMapNum (GetAtoms prod_example ! Suc 0) = 1"
    using nums by simp_all
  have R: "GetAtomMapNum ` set (GetAtoms reac_example) = {1, 0, 2}"
    and P: "GetAtomMapNum ` set (GetAtoms prod_example) = {0, 1, 3}"
    by (simp_all add: reac_example_def prod_example_def mapped_atom_def)
  have upt3: "[0..<3] = [0, 1, 2]" by (simp add: upt_rec)
  from map_reac_to_prod_lookup_misses [of reac_example prod_example]
  obtain d only_prod_ids only_reac_ids tbl where
    res: "map_reac_to_prod reac_example prod_example = Inr (d, only_prod_ids, only_reac_ids)"
    and dom: "dom tbl = {m. 0 < m \<and> m \<in> GetAtomMapNum ` set (GetAtoms prod_example)}"
    and only_reac: "only_reac_ids
         = filter (\<lambda>i. GetAtomMapNum (GetAtoms reac_example ! i) \<le> 0
                       \<or> GetAtomMapNum (GetAtoms reac_example ! i) \<notin> dom tbl)
             [0..<length (GetAtoms reac_example)]"
    and only_prod: "only_prod_ids
         = filter (\<lambda>j. GetAtomMapNum (GetAtoms prod_example ! j) \<le> 0
                       \<or> GetAtomMapNum (GetAtoms prod_example ! j)
                           \<notin> GetAtomMapNum ` set (GetAtoms reac_example))
             [0..<length (GetAtoms prod_example)]"
    and reac: "\<forall>i<length (GetAtoms reac_example).
          (GetAtomMapNum (GetAtoms reac_example ! i) \<le> 0
             \<longrightarrow> i \<in> set only_reac_ids \<and> d i = None)
          \<and> (0 < GetAtomMapNum (GetAtoms reac_example ! i)
               \<and> GetAtomMapNum (GetAtoms reac_example ! i) \<notin> dom tbl
               \<longrightarrow> i \<in> set only_reac_ids \<and> d i = None)
          \<and> (\<not> GetAtomMapNum (GetAtoms reac_example ! i) \<le> 0
               \<and> \<not> (0 < GetAtomMapNum (GetAtoms reac_example ! i)
                       \<and> GetAtomMapNum (GetAtoms reac_example ! i) \<notin> dom tbl)
               \<longrightarrow> i \<notin> set only_reac_ids
                   \<and> (\<exists>p. d i = Some p
                          \<and> tbl (GetAtomMapNum (GetAtoms reac_example ! i)) = Some p
                          \<and> p < length (GetAtoms prod_example)
                          \<and> GetAtomMapNum (GetAtoms prod_example ! p)
                              = GetAtomMapNum (GetAtoms reac_example ! i)))"
    by blast
  have keys: "dom tbl = {1, 3}"
    unfolding dom P by auto
  have l1: "only_reac_ids = [1, 2]"
    unfolding only_reac len upt3 keys by (simp add: nums nums1)
  have l2: "only_prod_ids = [0, 2]"
    unfolding only_prod len upt3 R by (simp add: nums nums1)
  from reac len nums keys have d1: "d 1 = None"
    by (auto dest!: spec [of _ 1])
  from reac len nums keys have d2: "d 2 = None"
    by (auto dest!: spec [of _ 2])
  from reac len nums keys obtain p where p: "d 0 = Some p" "p < 3"
    "GetAtomMapNum (GetAtoms prod_example ! p) = 1"
    by (auto dest!: spec [of _ 0])
  from p(2) have "p = 0 \<or> p = 1 \<or> p = 2" by auto
  with p(3) nums have "p = 1" by auto
  with p(1) have d0: "d 0 = Some 1" by simp
  from res l1 l2 d0 d1 d2 len nums show ?thesis by blast
qed

text \<open>
  The claim as it was stated fails on an atom with a negative map number: reactant atom
  0 here has the map number \<open>-1\<close>, which is neither 0 nor positive, so it is one of the
  claim's other reactant atoms, and it gets no dictionary entry; it is on the
  only-reactant list.
\<close>

theorem map_reac_to_prod_negative_counterexample:
  "GetAtomMapNum (GetAtoms reac_negative ! 0) = - 1
   \<and> map_reac_to_prod reac_negative prod_negative = Inr ([1 \<mapsto> 0], [1], [0])
   \<and> ([1 \<mapsto> 0] :: nat \<rightharpoonup> nat) 0 = None"
  by (simp add: map_reac_to_prod_def scan_prod_def reac_negative_def prod_negative_def
      mapped_atom_def carbon_def mapnos_of_def enumerate_eq_zip prod_step_def reac_step_def
      dict_getitem_def Let_def upt_rec)

section \<open>Properties of the directed-bond mapper\<close>

subsection \<open>The discovery loop\<close>

lemma for_each_map:
  "for_each (map (Pair x) ys) (\<lambda>(a, b). body a b) s = for_each ys (body x) s"
  by (induction ys arbitrary: s) (auto split: sum.splits)

lemma for_each_preserves:
  assumes "\<And>x s s'. body x s = Inr s' \<Longrightarrow> f s' = f s"
  shows "for_each xs body s = Inr s' \<Longrightarrow> f s' = f s"
proof (induction xs arbitrary: s)
  case Nil
  then show ?case by simp
next
  case (Cons x xs)
  then show ?case using assms by (auto split: sum.splits) 
qed

lemma for_each_nested:
  assumes pres: "\<And>x y s s'. body x y s = Inr s' \<Longrightarrow> n s' = n s"
  shows "for_each xs (\<lambda>x s. for_each (R x (n s)) (body x) s) s
           = for_each (concat (map (\<lambda>x. map (Pair x) (R x (n s))) xs)) (\<lambda>(x, y). body x y) s"
proof (induction xs arbitrary: s)
  case Nil
  show ?case by simp
next
  case (Cons x xs)
  show ?case
  proof (cases "for_each (R x (n s)) (body x) s")
    case (Inl e)
    then show ?thesis by (simp add: for_each_append for_each_map)
  next
    case (Inr s')
    have "n s' = n s"
      using for_each_preserves [of "body x" n, OF pres Inr] .
    with Inr Cons.IH [of s'] show ?thesis
      by (simp add: for_each_append for_each_map)
  qed
qed

lemma visit_pair_cases:
  assumes "visit_pair a1 a2 s = Inr s'"
  shows "(GetBondBetweenAtoms (datapoint s) (a1 - 1) (a2 - 1) = Inr None \<and> s' = s)
       \<or> (\<exists>b. GetBondBetweenAtoms (datapoint s) (a1 - 1) (a2 - 1) = Inr (Some b)
              \<and> a1 < length (atom_to_incoming_bonds s)
              \<and> a2 < length (atom_to_incoming_bonds s)
              \<and> a1 < length (f_atoms_zero_padded s) \<and> a2 < length (f_atoms_zero_padded s)
              \<and> length (f_atoms_zero_padded s ! a1 @ bond_features (Some b)) = concat_fdim s
              \<and> length (f_atoms_zero_padded s ! a2 @ bond_features (Some b)) = concat_fdim s
              \<and> s' = add_bond a1 a2 b s)"
  using assms
  by (auto simp: visit_pair_def update_concat_vector_def update_secondary_mappings_def
      extend_concat_feature_def append_at_def getitem_def add_bond_def Let_def
      split: sum.splits option.splits if_splits bool.splits)

lemma visit_pair_bonded:
  assumes "visit_pair a1 a2 s = Inr s'"
  shows "s' = (if bonded (datapoint s) (a1, a2)
               then add_bond a1 a2
                      (the (projr (GetBondBetweenAtoms (datapoint s) (a1 - 1) (a2 - 1)))) s
               else s)"
  using visit_pair_cases [OF assms] by (auto simp: bonded_def)


lemma incoming_snoc:
  "incoming (D @ [p]) a
     = incoming D a @ (if snd p = a then [2 * length D + 1] else [])
                    @ (if fst p = a then [2 * length D + 2] else [])"
proof -
  have eq: "concat (map (\<lambda>j. (if snd ((D @ [p]) ! j) = a then [2 * j + 1] else [])
                     @ (if fst ((D @ [p]) ! j) = a then [2 * j + 2] else [])) [0..<length D])
      = concat (map (\<lambda>j. (if snd (D ! j) = a then [2 * j + 1] else [])
                     @ (if fst (D ! j) = a then [2 * j + 2] else [])) [0..<length D])"
    by (rule arg_cong [where f = concat], rule map_cong) (auto simp: nth_append)
  show ?thesis
    unfolding incoming_def by (simp add: eq)
qed

lemma discovery_inv_init:
  "discovery_inv (init_fields mol fdim f_atoms) [] (init_fields mol fdim f_atoms)"
  by (simp add: discovery_inv_def init_fields_def incoming_def Let_def py_range_def)

lemma discovery_inv_add:
  assumes inv: "discovery_inv s0 D s"
    and a1: "a1 < length (atom_to_incoming_bonds s)"
    and a2: "a2 < length (atom_to_incoming_bonds s)"
    and w1: "length (f_atoms_zero_padded s ! a1 @ bond_features (Some b)) = concat_fdim s"
    and w2: "length (f_atoms_zero_padded s ! a2 @ bond_features (Some b)) = concat_fdim s"
  shows "discovery_inv s0 (D @ [(a1, a2)]) (add_bond a1 a2 b s)"
proof -
  let ?rows = "atom_to_incoming_bonds s"
  have len: "length ?rows = length (atom_to_incoming_bonds s0)"
    using inv by (simp add: discovery_inv_def)
  have nb: "num_bonds s = 2 * length D"
    using inv by (simp add: discovery_inv_def)
  have rows: "\<forall>a<length (atom_to_incoming_bonds s0). ?rows ! a = incoming D a"
    using inv by (simp add: discovery_inv_def)
  have new_rows: "atom_to_incoming_bonds (add_bond a1 a2 b s) ! a = incoming (D @ [(a1, a2)]) a"
    if "a < length (atom_to_incoming_bonds s0)" for a
    using that a1 a2 len rows nb
    by (auto simp: add_bond_def incoming_snoc nth_list_update)
  have f0: "f_ini_atoms_bonds_zero_padded s \<noteq> []"
    using inv by (auto simp: discovery_inv_def)
  show ?thesis
    unfolding discovery_inv_def
  proof (intro conjI)
    show "\<forall>a<length (atom_to_incoming_bonds s0).
            atom_to_incoming_bonds (add_bond a1 a2 b s) ! a = incoming (D @ [(a1, a2)]) a"
      using new_rows by blast
  qed (use inv a1 a2 w1 w2 f0 len in
      \<open>auto simp: discovery_inv_def add_bond_def nth_append\<close>)
qed

lemma pairs_loop_inv:
  assumes "for_each ps (\<lambda>(a1, a2). visit_pair a1 a2) s0 = Inr s"
    and "discovery_inv s0 [] s0"
  shows "discovery_inv s0 (filter (bonded (datapoint s0)) ps) s"
  using assms(1)
proof (induction ps arbitrary: s rule: rev_induct)
  case Nil
  with assms(2) show ?case by simp
next
  case (snoc p ps)
  obtain a1 a2 where p: "p = (a1, a2)" by (cases p)
  from snoc.prems obtain s1 where
    s1: "for_each ps (\<lambda>(a1, a2). visit_pair a1 a2) s0 = Inr s1"
    and step: "visit_pair a1 a2 s1 = Inr s"
    by (auto simp: for_each_append p split: sum.splits)
  note ih = snoc.IH [OF s1]
  have dp: "datapoint s1 = datapoint s0"
    using ih by (simp add: discovery_inv_def)
  from visit_pair_cases [OF step] show ?case
  proof (elim disjE conjE exE)
    assume "GetBondBetweenAtoms (datapoint s1) (a1 - 1) (a2 - 1) = Inr None" and "s = s1"
    then show ?thesis using ih dp by (simp add: p bonded_def)
  next
    fix b
    assume b: "GetBondBetweenAtoms (datapoint s1) (a1 - 1) (a2 - 1) = Inr (Some b)"
      and r: "a1 < length (atom_to_incoming_bonds s1)" "a2 < length (atom_to_incoming_bonds s1)"
      and w: "length (f_atoms_zero_padded s1 ! a1 @ bond_features (Some b)) = concat_fdim s1"
        "length (f_atoms_zero_padded s1 ! a2 @ bond_features (Some b)) = concat_fdim s1"
      and s: "s = add_bond a1 a2 b s1"
    have "bonded (datapoint s0) p" using b dp by (simp add: p bonded_def)
    then show ?thesis
      using discovery_inv_add [OF ih r w] s by (simp add: p)
  qed
qed

lemma visit_pair_num_atoms: "visit_pair a1 a2 s = Inr s' \<Longrightarrow> num_atoms s' = num_atoms s"
  using visit_pair_cases [of a1 a2 s s'] by (auto simp: add_bond_def)

lemma discover_bonds_flat:
  "discover_bonds s
     = for_each (all_pairs (nat (num_atoms s + 1))) (\<lambda>(a1, a2). visit_pair a1 a2) s"
  unfolding discover_bonds_def all_pairs_def
  using for_each_nested [of visit_pair num_atoms "py_range 1 (nat (num_atoms s + 1))"
      "\<lambda>a1 n. py_range (a1 + 1) (nat (n + 1))" s, OF visit_pair_num_atoms]
  by simp

lemma discover_bonds_inv:
  assumes "discover_bonds (init_fields mol fdim f_atoms) = Inr s"
  shows "discovery_inv (init_fields mol fdim f_atoms) (discovered mol (length f_atoms)) s"
proof -
  let ?s0 = "init_fields mol fdim f_atoms"
  have hi: "nat (num_atoms ?s0 + 1) = length f_atoms"
    by (simp add: init_fields_def Let_def)
  have dp: "datapoint ?s0 = mol" by (simp add: init_fields_def Let_def)
  from assms have "for_each (all_pairs (length f_atoms)) (\<lambda>(a1, a2). visit_pair a1 a2) ?s0 = Inr s"
    by (simp add: discover_bonds_flat hi)
  from pairs_loop_inv [OF this discovery_inv_init] show ?thesis
    by (simp add: discovered_def dp)
qed

subsection \<open>Padding, row selection and the reverse-bond scrub\<close>

lemma map_err_Inr_iff: "map_err f xs = Inr ys \<longleftrightarrow> list_all2 (\<lambda>x y. f x = Inr y) xs ys"
proof (induction xs arbitrary: ys)
  case Nil
  show ?case by auto
next
  case (Cons x xs)
  show ?case
  proof (cases ys)
    case Nil
    then show ?thesis by (simp split: sum.splits)
  next
    case ys: (Cons z zs)
    have "map_err f (x # xs) = Inr (z # zs) \<longleftrightarrow> f x = Inr z \<and> map_err f xs = Inr zs"
      by (simp split: sum.splits)
    also have "\<dots> \<longleftrightarrow> f x = Inr z \<and> list_all2 (\<lambda>x y. f x = Inr y) xs zs"
      unfolding Cons.IH ..
    finally show ?thesis unfolding ys by simp
  qed
qed

lemma py_max_Inr: "py_max xs = Inr m \<Longrightarrow> xs \<noteq> [] \<and> m = Max (set xs)"
proof (cases xs)
  case Nil
  assume "py_max xs = Inr m"
  with Nil show ?thesis by simp
next
  case (Cons x ys)
  assume "py_max xs = Inr m"
  with Cons Max.set_eq_fold [of x ys] show ?thesis by simp
qed

lemma py_max_nonempty: "xs \<noteq> [] \<Longrightarrow> py_max xs = Inr (Max (set xs))"
proof (cases xs)
  case Nil
  assume "xs \<noteq> []"
  with Nil show ?thesis by simp
next
  case (Cons x ys)
  with Max.set_eq_fold [of x ys] show ?thesis by simp
qed

lemma modify_based_on_max_bonds_Inr:
  assumes "modify_based_on_max_bonds s = Inr s'"
    and "length (atom_to_incoming_bonds s) = nat (num_atoms s + 1)"
  shows "atom_to_incoming_bonds s \<noteq> []
         \<and> s' = s\<lparr>atom_to_incoming_bonds :=
                    map (pad_row (max_width (atom_to_incoming_bonds s)))
                      (atom_to_incoming_bonds s)\<rparr>"
proof -
  let ?rows = "atom_to_incoming_bonds s"
  let ?f = "\<lambda>m a. case getitem ?rows a of Inl e \<Rightarrow> Inl e
                       | Inr row \<Rightarrow> Inr (row @ replicate (max 1 m - length row) 0)"
  from assms(1) have "\<exists>m rows'. py_max (map length ?rows) = Inr m
      \<and> map_err (?f m) (py_range 0 (nat (num_atoms s + 1))) = Inr rows'
      \<and> s' = s\<lparr>atom_to_incoming_bonds := rows'\<rparr>"
    unfolding modify_based_on_max_bonds_def Let_def
    by (simp del: One_nat_def split: sum.splits)
  then obtain m rows' where m: "py_max (map length ?rows) = Inr m"
    and rows': "map_err (?f m) (py_range 0 (nat (num_atoms s + 1))) = Inr rows'"
    and s': "s' = s\<lparr>atom_to_incoming_bonds := rows'\<rparr>"
    by blast
  from py_max_Inr [OF m] have ne: "?rows \<noteq> []" and mw: "max 1 m = max_width ?rows"
    by (simp_all add: max_width_def)
  from rows' have la: "list_all2 (\<lambda>a y. ?f m a = Inr y) [0..<length ?rows] rows'"
    unfolding map_err_Inr_iff py_range_def assms(2) .
  have len: "length rows' = length ?rows"
    using list_all2_lengthD [OF la] by simp
  have "rows' = map (pad_row (max_width ?rows)) ?rows"
  proof (rule nth_equalityI)
    show "length rows' = length (map (pad_row (max_width ?rows)) ?rows)"
      using len by simp
  next
    fix i assume "i < length rows'"
    then have i: "i < length ?rows" using len by simp
    then have "?f m ([0..<length ?rows] ! i) = Inr (rows' ! i)"
      using list_all2_nthD [OF la, of i] by simp
    then have "rows' ! i = ?rows ! i @ replicate (max 1 m - length (?rows ! i)) 0"
      using i by (simp add: getitem_def del: One_nat_def)
    then show "rows' ! i = map (pad_row (max_width ?rows)) ?rows ! i"
      using i unfolding mw by (simp add: pad_row_def)
  qed
  with s' ne show ?thesis by simp
qed

lemma list_all2_getitem:
  "list_all2 (\<lambda>x y. getitem table x = Inr y) idxs m
     \<longleftrightarrow> (\<forall>i\<in>set idxs. i < length table) \<and> m = map ((!) table) idxs"
proof (induction idxs arbitrary: m)
  case Nil
  show ?case by auto
next
  case (Cons i idxs)
  show ?case
  proof (cases m)
    case Nil
    then show ?thesis by simp
  next
    case (Cons r rs)
    have "getitem table i = Inr r \<longleftrightarrow> i < length table \<and> r = table ! i"
      by (auto simp: getitem_def)
    with Cons Cons.IH [of rs] show ?thesis by auto
  qed
qed

lemma take_rows_Inr:
  "take_rows table idxs = Inr m \<longleftrightarrow> (\<forall>i\<in>set idxs. i < length table) \<and> m = map ((!) table) idxs"
  unfolding take_rows_def map_err_Inr_iff by (rule list_all2_getitem)

lemma replace_rev_bond_Inr:
  "replace_rev_bond (c, i) s = Inr s' \<longleftrightarrow>
     c < length (mapping s) \<and> s' = s\<lparr>mapping := (mapping s)[c := scrub i (mapping s ! c)]\<rparr>"
  unfolding replace_rev_bond_def getitem_def
  by (cases "c < length (mapping s)") (simp_all add: eq_commute)

lemma scrub_loop:
  assumes "for_each (enumerate 0 revs) replace_rev_bond s = Inr s'"
  shows "length revs \<le> length (mapping s)
         \<and> (\<exists>m. s' = s\<lparr>mapping := m\<rparr> \<and> length m = length (mapping s)
               \<and> (\<forall>i<length m. m ! i = (if i < length revs then scrub (revs ! i) (mapping s ! i)
                                         else mapping s ! i)))"
  using assms
proof (induction revs arbitrary: s' rule: rev_induct)
  case Nil
  then show ?case by (auto intro!: exI [of _ "mapping s"])
next
  case (snoc r revs)
  from snoc.prems obtain s1 where
    s1: "for_each (enumerate 0 revs) replace_rev_bond s = Inr s1"
    and step: "replace_rev_bond (length revs, r) s1 = Inr s'"
    by (auto simp: enumerate_snoc for_each_append split: sum.splits)
  from snoc.IH [OF s1] obtain m where
    le: "length revs \<le> length (mapping s)"
    and m: "s1 = s\<lparr>mapping := m\<rparr>" "length m = length (mapping s)"
    and rows: "\<forall>i<length m. m ! i = (if i < length revs then scrub (revs ! i) (mapping s ! i)
                                         else mapping s ! i)"
    by blast
  from step m have lt: "length revs < length m"
    and s': "s' = s\<lparr>mapping := m[length revs := scrub r (m ! length revs)]\<rparr>"
    by (auto simp: replace_rev_bond_Inr)
  show ?case
  proof (intro conjI exI [of _ "m[length revs := scrub r (m ! length revs)]"] allI impI)
    show "length (revs @ [r]) \<le> length (mapping s)" using lt m by simp
    show "s' = s\<lparr>mapping := m[length revs := scrub r (m ! length revs)]\<rparr>" by (rule s')
    show "length (m[length revs := scrub r (m ! length revs)]) = length (mapping s)"
      using m by simp
  next
    fix i assume "i < length (m[length revs := scrub r (m ! length revs)])"
    then have i: "i < length m" by simp
    show "m[length revs := scrub r (m ! length revs)] ! i
          = (if i < length (revs @ [r]) then scrub ((revs @ [r]) ! i) (mapping s ! i)
             else mapping s ! i)"
      using i lt rows by (auto simp: nth_list_update nth_append less_Suc_eq)
  qed
qed

subsection \<open>The constructed mapper\<close>

lemma discovery_inv_lengths:
  assumes "discovery_inv s0 D s"
  shows "length (bond_to_ini_atom s) = 2 * length D + 1"
    and "length (b2revb s) = 2 * length D + 1"
proof -
  have "length (concat (map (\<lambda>p. [fst p, snd p]) D)) = 2 * length D"
    by (induction D) auto
  with assms show "length (bond_to_ini_atom s) = 2 * length D + 1"
    by (simp add: discovery_inv_def)
  have "length (concat (map (\<lambda>j. [2 * j + 2, 2 * j + 1]) xs)) = 2 * length xs" for xs :: "nat list"
    by (induction xs) auto
  from this [of "[0..<length D]"] assms show "length (b2revb s) = 2 * length D + 1"
    by (simp add: discovery_inv_def)
qed

lemma generate_mapping_Inr:
  assumes "generate_mapping s0 = Inr s"
    and len0: "length (atom_to_incoming_bonds s0) = nat (num_atoms s0 + 1)"
    and inv0: "discovery_inv s0 [] s0"
  shows "\<exists>s1. discover_bonds s0 = Inr s1
           \<and> discovery_inv s0 (filter (bonded (datapoint s0)) (all_pairs (nat (num_atoms s0 + 1)))) s1
           \<and> atom_to_incoming_bonds s1 \<noteq> []
           \<and> (\<forall>a\<in>set (bond_to_ini_atom s1). a < length (atom_to_incoming_bonds s1))
           \<and> s = s1\<lparr>atom_to_incoming_bonds :=
                       map (pad_row (max_width (atom_to_incoming_bonds s1)))
                         (atom_to_incoming_bonds s1),
                     mapping :=
                       map (\<lambda>i. scrub (b2revb s1 ! i)
                                  (pad_row (max_width (atom_to_incoming_bonds s1))
                                     (atom_to_incoming_bonds s1 ! (bond_to_ini_atom s1 ! i))))
                         [0..<length (b2revb s1)]\<rparr>"
proof -
  from assms(1) obtain s1 s2 m where
    s1: "discover_bonds s0 = Inr s1"
    and s2: "modify_based_on_max_bonds s1 = Inr s2"
    and m: "take_rows (atom_to_incoming_bonds s2) (bond_to_ini_atom s2) = Inr m"
    and s: "replace_rev_bonds (s2\<lparr>mapping := m\<rparr>) = Inr s"
    by (auto simp: generate_mapping_def split: sum.splits)
  let ?D = "filter (bonded (datapoint s0)) (all_pairs (nat (num_atoms s0 + 1)))"
  from s1 have "for_each (all_pairs (nat (num_atoms s0 + 1))) (\<lambda>(a1, a2). visit_pair a1 a2) s0
                  = Inr s1"
    by (simp add: discover_bonds_flat)
  from pairs_loop_inv [OF this inv0] have inv: "discovery_inv s0 ?D s1" .
  then have len1: "length (atom_to_incoming_bonds s1) = nat (num_atoms s1 + 1)"
    using len0 by (simp add: discovery_inv_def)
  let ?rows = "atom_to_incoming_bonds s1"
  let ?M = "max_width ?rows"
  from modify_based_on_max_bonds_Inr [OF s2 len1]
  have ne: "?rows \<noteq> []" and s2_eq: "s2 = s1\<lparr>atom_to_incoming_bonds := map (pad_row ?M) ?rows\<rparr>"
    by simp_all
  from m have rng: "\<forall>a\<in>set (bond_to_ini_atom s1). a < length ?rows"
    and m_eq: "m = map ((!) (map (pad_row ?M) ?rows)) (bond_to_ini_atom s1)"
    unfolding take_rows_Inr by (simp_all add: s2_eq)
  have lens: "length (bond_to_ini_atom s1) = length (b2revb s1)"
    using discovery_inv_lengths [OF inv] by simp
  from s have "for_each (enumerate 0 (b2revb s1)) replace_rev_bond (s2\<lparr>mapping := m\<rparr>) = Inr s"
    by (simp add: replace_rev_bonds_def s2_eq)
  from scrub_loop [OF this] obtain m' where
    s_eq: "s = s2\<lparr>mapping := m'\<rparr>" and lm: "length m' = length m"
    and rows: "\<forall>i<length m'. m' ! i = (if i < length (b2revb s1) then scrub (b2revb s1 ! i) (m ! i)
                                         else m ! i)"
    by auto
  have "m' = map (\<lambda>i. scrub (b2revb s1 ! i) (pad_row ?M (?rows ! (bond_to_ini_atom s1 ! i))))
               [0..<length (b2revb s1)]"
  proof (rule nth_equalityI)
    show "length m' = length (map (\<lambda>i. scrub (b2revb s1 ! i)
              (pad_row ?M (?rows ! (bond_to_ini_atom s1 ! i)))) [0..<length (b2revb s1)])"
      using lm m_eq lens by simp
  next
    fix i assume i: "i < length m'"
    then have i': "i < length (b2revb s1)" "i < length (bond_to_ini_atom s1)"
      using lm m_eq lens by simp_all
    then have "bond_to_ini_atom s1 ! i < length ?rows" using rng by simp
    then have "m ! i = pad_row ?M (?rows ! (bond_to_ini_atom s1 ! i))"
      using i' by (simp add: m_eq)
    with rows i i' show "m' ! i = map (\<lambda>i. scrub (b2revb s1 ! i)
              (pad_row ?M (?rows ! (bond_to_ini_atom s1 ! i)))) [0..<length (b2revb s1)] ! i"
      by simp
  qed
  with s_eq s2_eq have "s = s1\<lparr>atom_to_incoming_bonds := map (pad_row ?M) ?rows,
      mapping := map (\<lambda>i. scrub (b2revb s1 ! i) (pad_row ?M (?rows ! (bond_to_ini_atom s1 ! i))))
               [0..<length (b2revb s1)]\<rparr>"
    by simp
  with s1 inv ne rng show ?thesis by blast
qed

lemma init_fields_simps:
  "datapoint (init_fields mol fdim f_atoms) = mol"
  "concat_fdim (init_fields mol fdim f_atoms) = fdim"
  "f_atoms_zero_padded (init_fields mol fdim f_atoms) = f_atoms"
  "nat (num_atoms (init_fields mol fdim f_atoms) + 1) = length f_atoms"
  "length (atom_to_incoming_bonds (init_fields mol fdim f_atoms)) = length f_atoms"
  by (simp_all add: init_fields_def Let_def py_range_def)

lemma MapperDMPNN_init_Inr:
  assumes "MapperDMPNN_init mol fdim f_atoms = Inr s"
  shows "\<exists>s1. discover_bonds (init_fields mol fdim f_atoms) = Inr s1
           \<and> discovery_inv (init_fields mol fdim f_atoms) (discovered mol (length f_atoms)) s1
           \<and> f_atoms \<noteq> []
           \<and> length (atom_to_incoming_bonds s1) = length f_atoms
           \<and> (\<forall>a\<in>set (bond_to_ini_atom s1). a < length (atom_to_incoming_bonds s1))
           \<and> s = s1\<lparr>atom_to_incoming_bonds :=
                       map (pad_row (max_width (atom_to_incoming_bonds s1)))
                         (atom_to_incoming_bonds s1),
                     mapping :=
                       map (\<lambda>i. scrub (b2revb s1 ! i)
                                  (pad_row (max_width (atom_to_incoming_bonds s1))
                                     (atom_to_incoming_bonds s1 ! (bond_to_ini_atom s1 ! i))))
                         [0..<length (b2revb s1)]\<rparr>"
proof -
  let ?s0 = "init_fields mol fdim f_atoms"
  have len0: "length (atom_to_incoming_bonds ?s0) = nat (num_atoms ?s0 + 1)"
    by (simp add: init_fields_simps)
  from assms have "generate_mapping ?s0 = Inr s" by (simp add: MapperDMPNN_init_def)
  from generate_mapping_Inr [OF this len0 discovery_inv_init]
  obtain s1 where s1: "discover_bonds ?s0 = Inr s1"
    and inv: "discovery_inv ?s0 (discovered mol (length f_atoms)) s1"
    and ne: "atom_to_incoming_bonds s1 \<noteq> []"
    and rng: "\<forall>a\<in>set (bond_to_ini_atom s1). a < length (atom_to_incoming_bonds s1)"
    and s: "s = s1\<lparr>atom_to_incoming_bonds :=
                       map (pad_row (max_width (atom_to_incoming_bonds s1)))
                         (atom_to_incoming_bonds s1),
                     mapping :=
                       map (\<lambda>i. scrub (b2revb s1 ! i)
                                  (pad_row (max_width (atom_to_incoming_bonds s1))
                                     (atom_to_incoming_bonds s1 ! (bond_to_ini_atom s1 ! i))))
                         [0..<length (b2revb s1)]\<rparr>"
    unfolding discovered_def init_fields_simps by blast
  from inv have len: "length (atom_to_incoming_bonds s1) = length f_atoms"
    by (simp add: discovery_inv_def init_fields_simps)
  with ne have "f_atoms \<noteq> []" by auto
  with s1 inv len rng s show ?thesis by blast
qed

lemma nth_concat_pairs:
  "j < length xs \<Longrightarrow>
     concat (map (\<lambda>x. [f x, g x]) xs) ! (2 * j) = f (xs ! j)
     \<and> concat (map (\<lambda>x. [f x, g x]) xs) ! (2 * j + 1) = g (xs ! j)"
proof (induction xs arbitrary: j)
  case Nil
  then show ?case by simp
next
  case (Cons x xs)
  show ?case
  proof (cases j)
    case 0
    then show ?thesis by simp
  next
    case (Suc k)
    with Cons.prems have "k < length xs" by simp
    from Cons.IH [OF this] Suc show ?thesis by simp
  qed
qed

lemma length_concat_pairs: "length (concat (map (\<lambda>x. [f x, g x]) xs)) = 2 * length xs"
  by (induction xs) auto

lemma discovery_inv_nth:
  assumes "discovery_inv s0 D s" and "j < length D"
  shows "bond_to_ini_atom s ! (2 * j + 1) = fst (D ! j)"
    and "bond_to_ini_atom s ! (2 * j + 2) = snd (D ! j)"
    and "b2revb s ! (2 * j + 1) = 2 * j + 2"
    and "b2revb s ! (2 * j + 2) = 2 * j + 1"
proof -
  have ini: "bond_to_ini_atom s = 0 # concat (map (\<lambda>p. [fst p, snd p]) D)"
    and rev: "b2revb s = 0 # concat (map (\<lambda>j. [2 * j + 2, 2 * j + 1]) [0..<length D])"
    using assms(1) by (simp_all add: discovery_inv_def)
  from nth_concat_pairs [OF assms(2), of fst snd]
  show "bond_to_ini_atom s ! (2 * j + 1) = fst (D ! j)"
    and "bond_to_ini_atom s ! (2 * j + 2) = snd (D ! j)"
    unfolding ini by simp_all
  have "j < length [0..<length D]" using assms(2) by simp
  from nth_concat_pairs [OF this, of "\<lambda>j. 2 * j + 2" "\<lambda>j. 2 * j + 1"] assms(2)
  show "b2revb s ! (2 * j + 1) = 2 * j + 2" and "b2revb s ! (2 * j + 2) = 2 * j + 1"
    unfolding rev by simp_all
qed

lemma bond_id_cases:
  assumes "1 \<le> (i::nat)" and "i \<le> 2 * n"
  obtains j where "j < n" and "i = 2 * j + 1" | j where "j < n" and "i = 2 * j + 2"
proof (cases "odd i")
  case True
  then obtain j where "i = 2 * j + 1" by (auto elim: oddE)
  with assms that(1) [of j] show ?thesis by simp
next
  case False
  then obtain k where k: "i = 2 * k" by (auto elim: evenE)
  with assms obtain j where "k = Suc j" by (cases k) auto
  with k assms that(2) [of j] show ?thesis by simp
qed


lemma scrub_notin: "r \<noteq> 0 \<Longrightarrow> r \<notin> set (scrub r row)"
  by (auto simp: scrub_def)

lemma b2revb_nonzero:
  assumes "discovery_inv s0 D s" and "1 \<le> i" and "i \<le> 2 * length D"
  shows "b2revb s ! i = (if odd i then i + 1 else i - 1)" and "b2revb s ! i \<noteq> 0"
    and "1 \<le> b2revb s ! i" and "b2revb s ! i \<le> 2 * length D"
proof -
  from assms(2,3) show "b2revb s ! i = (if odd i then i + 1 else i - 1)"
  proof (cases rule: bond_id_cases)
    case (1 j)
    with discovery_inv_nth(3) [OF assms(1), of j] show ?thesis by simp
  next
    case (2 j)
    with discovery_inv_nth(4) [OF assms(1), of j] show ?thesis by simp
  qed
  then have eq: "b2revb s ! i = (if odd i then i + 1 else i - 1)" .
  have "odd i \<Longrightarrow> i + 1 \<le> 2 * length D"
    using assms(3) by presburger
  moreover have "even i \<Longrightarrow> 1 \<le> i - 1"
    using assms(2) by presburger
  ultimately show "b2revb s ! i \<noteq> 0" and "1 \<le> b2revb s ! i"
    and "b2revb s ! i \<le> 2 * length D"
    using assms(2,3) unfolding eq by auto
qed

text \<open>
  C1. After the construction, for every directed bond id \<open>i\<close> in \<open>[1, num_bonds]\<close>, row
  \<open>i\<close> of \<open>self.mapping\<close> has no entry equal to \<open>b2revb[i]\<close>: the row is the row of incoming
  bonds of the bond's initial atom with every such entry replaced by 0.
\<close>

theorem reverse_bond_scrubbed:
  assumes "MapperDMPNN_init mol fdim f_atoms = Inr s"
    and "1 \<le> i" and "i \<le> num_bonds s"
  shows "i < length (mapping s) \<and> i < length (b2revb s)
         \<and> b2revb s ! i \<notin> set (mapping s ! i)
         \<and> mapping s ! i
             = map (\<lambda>x. if x = b2revb s ! i then 0 else x)
                 (atom_to_incoming_bonds s ! (bond_to_ini_atom s ! i))"
proof -
  let ?D = "discovered mol (length f_atoms)"
  from MapperDMPNN_init_Inr [OF assms(1)] obtain s1 where
    inv: "discovery_inv (init_fields mol fdim f_atoms) ?D s1"
    and rng: "\<forall>a\<in>set (bond_to_ini_atom s1). a < length (atom_to_incoming_bonds s1)"
    and s: "s = s1\<lparr>atom_to_incoming_bonds :=
                       map (pad_row (max_width (atom_to_incoming_bonds s1)))
                         (atom_to_incoming_bonds s1),
                     mapping :=
                       map (\<lambda>i. scrub (b2revb s1 ! i)
                                  (pad_row (max_width (atom_to_incoming_bonds s1))
                                     (atom_to_incoming_bonds s1 ! (bond_to_ini_atom s1 ! i))))
                         [0..<length (b2revb s1)]\<rparr>"
    by blast
  have nb: "num_bonds s = 2 * length ?D"
    using inv s by (simp add: discovery_inv_def)
  have i: "i < length (b2revb s1)" "i < length (bond_to_ini_atom s1)"
    using discovery_inv_lengths [OF inv] assms(3) nb by simp_all
  then have a: "bond_to_ini_atom s1 ! i < length (atom_to_incoming_bonds s1)"
    using rng by simp
  have row: "mapping s ! i
      = scrub (b2revb s ! i) (atom_to_incoming_bonds s ! (bond_to_ini_atom s ! i))"
    using i a by (simp add: s)
  have "b2revb s1 ! i \<noteq> 0"
    using b2revb_nonzero(2) [OF inv assms(2)] assms(3) nb by simp
  then have "b2revb s ! i \<notin> set (mapping s ! i)"
    unfolding row by (simp add: s scrub_notin)
  with row i show ?thesis by (simp add: s scrub_def)
qed

lemma chain3_init: "MapperDMPNN_init chain3 15 f_atoms3 = Inr chain3_mapper"
  by code_simp

theorem reverse_bond_scrubbed_witness:
  "MapperDMPNN_init chain3 15 f_atoms3 = Inr chain3_mapper
   \<and> (1::nat) \<le> 3 \<and> 3 \<le> num_bonds chain3_mapper
   \<and> b2revb chain3_mapper ! 3 = 4
   \<and> atom_to_incoming_bonds chain3_mapper ! (bond_to_ini_atom chain3_mapper ! 3) = [1, 4]
   \<and> mapping chain3_mapper ! 3 = [1, 0]
   \<and> b2revb chain3_mapper ! 3 \<notin> set (mapping chain3_mapper ! 3)"
proof -
  have h: "(1::nat) \<le> 3" "3 \<le> num_bonds chain3_mapper"
    by (simp_all add: chain3_mapper_def)
  from reverse_bond_scrubbed [OF chain3_init h]
  have "b2revb chain3_mapper ! 3 \<notin> set (mapping chain3_mapper ! 3)"
    and "mapping chain3_mapper ! 3
             = map (\<lambda>x. if x = b2revb chain3_mapper ! 3 then 0 else x)
                 (atom_to_incoming_bonds chain3_mapper ! (bond_to_ini_atom chain3_mapper ! 3))"
    by blast+
  moreover have "b2revb chain3_mapper ! 3 = 4"
    and "atom_to_incoming_bonds chain3_mapper ! (bond_to_ini_atom chain3_mapper ! 3) = [1, 4]"
    by (simp_all add: chain3_mapper_def)
  ultimately show ?thesis using chain3_init h by simp
qed

lemma set_all_pairs: "set (all_pairs n) = {(a1, a2). 1 \<le> a1 \<and> a1 < a2 \<and> a2 < n}"
  by (auto simp: all_pairs_def py_range_def image_iff)

lemma sorted_wrt_pairs_aux:
  "sorted_wrt (<) xs \<Longrightarrow>
     sorted_wrt lex_less (concat (map (\<lambda>a1. map (Pair a1) [a1 + 1..<n]) xs))"
proof (induction xs)
  case Nil
  show ?case by simp
next
  case (Cons x xs)
  have row: "sorted_wrt lex_less (map (Pair x) [x + 1..<n])"
    unfolding sorted_wrt_map lex_less_def by (simp add: sorted_wrt_upt)
  have rest: "sorted_wrt lex_less (concat (map (\<lambda>a1. map (Pair a1) [a1 + 1..<n]) xs))"
    using Cons by simp
  have cross: "\<forall>p\<in>set (map (Pair x) [x + 1..<n]).
                 \<forall>q\<in>set (concat (map (\<lambda>a1. map (Pair a1) [a1 + 1..<n]) xs)). lex_less p q"
    using Cons.prems by (auto simp: lex_less_def)
  show ?case
    using row rest cross by (simp only: list.map concat.simps sorted_wrt_append)
qed

lemma sorted_all_pairs: "sorted_wrt lex_less (all_pairs n)"
  unfolding all_pairs_def py_range_def by (rule sorted_wrt_pairs_aux) simp

lemma distinct_all_pairs: "distinct (all_pairs n)"
proof -
  have "sorted_wrt lex_less xs \<Longrightarrow> distinct xs" for xs
    by (induction xs) (auto simp: lex_less_def)
  from this [OF sorted_all_pairs] show ?thesis .
qed


text \<open>
  C3. The pair loop visits the atom pairs \<open>(a1, a2)\<close>, \<open>1 \<le> a1 < a2 \<le> num_atoms\<close>, in
  increasing lexicographic order, and the directed-bond ids follow the order of
  discovery: the \<open>j\<close>-th pair on which a bond is found (counting from 0, so that
  \<open>num_bonds = 2j\<close> when it is found) gets the consecutive ids \<open>k = 2j + 1\<close> and \<open>k + 1\<close>,
  with \<open>bond_to_ini_atom[k] = a1\<close>, \<open>bond_to_ini_atom[k + 1] = a2\<close>, \<open>b2revb[k] = k + 1\<close>
  and \<open>b2revb[k + 1] = k\<close>; odd ids run from \<open>a1\<close> to \<open>a2\<close>, even ids back, and \<open>b2revb\<close>
  is an involution on the ids.
\<close>

theorem bond_ids_in_discovery_order:
  assumes "MapperDMPNN_init mol fdim f_atoms = Inr s"
  shows "discover_bonds (init_fields mol fdim f_atoms)
           = for_each (all_pairs (length f_atoms)) (\<lambda>(a1, a2). visit_pair a1 a2)
               (init_fields mol fdim f_atoms)
         \<and> int (length f_atoms) = num_atoms s + 1
         \<and> set (all_pairs (length f_atoms))
             = {(a1, a2). 1 \<le> a1 \<and> a1 < a2 \<and> a2 < length f_atoms}
         \<and> sorted_wrt lex_less (all_pairs (length f_atoms))
         \<and> discovered mol (length f_atoms) = filter (bonded mol) (all_pairs (length f_atoms))
         \<and> sorted_wrt lex_less (discovered mol (length f_atoms))
         \<and> num_bonds s = 2 * length (discovered mol (length f_atoms))
         \<and> (\<forall>j<length (discovered mol (length f_atoms)).
               bond_to_ini_atom s ! (2 * j + 1) = fst (discovered mol (length f_atoms) ! j)
               \<and> bond_to_ini_atom s ! (2 * j + 1 + 1) = snd (discovered mol (length f_atoms) ! j)
               \<and> b2revb s ! (2 * j + 1) = 2 * j + 1 + 1
               \<and> b2revb s ! (2 * j + 1 + 1) = 2 * j + 1
               \<and> fst (discovered mol (length f_atoms) ! j)
                   < snd (discovered mol (length f_atoms) ! j))
         \<and> (\<forall>i. 1 \<le> i \<and> i \<le> num_bonds s \<longrightarrow>
               b2revb s ! i = (if odd i then i + 1 else i - 1)
               \<and> b2revb s ! (b2revb s ! i) = i)"
proof -
  let ?n = "length f_atoms"
  let ?D = "discovered mol ?n"
  let ?s0 = "init_fields mol fdim f_atoms"
  from MapperDMPNN_init_Inr [OF assms] obtain s1 where
    inv: "discovery_inv ?s0 ?D s1"
    and ne: "f_atoms \<noteq> []"
    and s: "s = s1\<lparr>atom_to_incoming_bonds :=
                       map (pad_row (max_width (atom_to_incoming_bonds s1)))
                         (atom_to_incoming_bonds s1),
                     mapping :=
                       map (\<lambda>i. scrub (b2revb s1 ! i)
                                  (pad_row (max_width (atom_to_incoming_bonds s1))
                                     (atom_to_incoming_bonds s1 ! (bond_to_ini_atom s1 ! i))))
                         [0..<length (b2revb s1)]\<rparr>"
    by blast
  have fields: "bond_to_ini_atom s = bond_to_ini_atom s1" "b2revb s = b2revb s1"
    "num_bonds s = num_bonds s1" "num_atoms s = num_atoms s1"
    by (simp_all add: s)
  have flat: "discover_bonds ?s0
           = for_each (all_pairs ?n) (\<lambda>(a1, a2). visit_pair a1 a2) ?s0"
    using discover_bonds_flat [of ?s0] by (simp add: init_fields_simps)
  have na: "int ?n = num_atoms s + 1"
    using inv ne by (simp add: fields discovery_inv_def init_fields_def Let_def)
  have nb: "num_bonds s = 2 * length ?D"
    using inv by (simp add: fields discovery_inv_def)
  have sortedD: "sorted_wrt lex_less ?D"
    unfolding discovered_def by (rule sorted_wrt_filter [OF sorted_all_pairs])
  have pairs: "bond_to_ini_atom s ! (2 * j + 1) = fst (?D ! j)
               \<and> bond_to_ini_atom s ! (2 * j + 1 + 1) = snd (?D ! j)
               \<and> b2revb s ! (2 * j + 1) = 2 * j + 1 + 1
               \<and> b2revb s ! (2 * j + 1 + 1) = 2 * j + 1
               \<and> fst (?D ! j) < snd (?D ! j)" if "j < length ?D" for j
  proof -
    from that have "?D ! j \<in> set (all_pairs ?n)"
      unfolding discovered_def using nth_mem by fastforce
    then have "fst (?D ! j) < snd (?D ! j)"
      unfolding set_all_pairs by auto
    with discovery_inv_nth [OF inv that] show ?thesis
      by (simp add: fields)
  qed
  have invol: "b2revb s ! i = (if odd i then i + 1 else i - 1) \<and> b2revb s ! (b2revb s ! i) = i"
    if "1 \<le> i \<and> i \<le> num_bonds s" for i
  proof -
    from that have i: "1 \<le> i" "i \<le> 2 * length ?D" using nb by simp_all
    note r = b2revb_nonzero [OF inv i]
    from b2revb_nonzero(1) [OF inv r(3) r(4)] r(1) i
    have "b2revb s1 ! (b2revb s1 ! i) = i"
      by (auto split: if_splits)
    with r(1) show ?thesis by (simp add: fields)
  qed
  show ?thesis
    apply (rule conjI, rule flat)
    apply (rule conjI, rule na)
    apply (rule conjI, rule set_all_pairs)
    apply (rule conjI, rule sorted_all_pairs)
    apply (rule conjI, rule discovered_def)
    apply (rule conjI, rule sortedD)
    apply (rule conjI, rule nb)
    apply (rule conjI)
     apply (rule allI, rule impI, erule pairs)
    apply (rule allI, rule impI, erule invol)
    done
qed

lemma chain3_discovered: "discovered chain3 (length f_atoms3) = [(1, 2), (2, 3)]"
  by code_simp

theorem bond_ids_in_discovery_order_witness:
  "MapperDMPNN_init chain3 15 f_atoms3 = Inr chain3_mapper
   \<and> (1::nat) < length (discovered chain3 (length f_atoms3))
   \<and> discovered chain3 (length f_atoms3) ! 1 = (2, 3)
   \<and> bond_to_ini_atom chain3_mapper ! 3 = 2 \<and> bond_to_ini_atom chain3_mapper ! 4 = 3
   \<and> b2revb chain3_mapper ! 3 = 4 \<and> b2revb chain3_mapper ! 4 = 3
   \<and> num_bonds chain3_mapper = 4"
proof -
  have j: "(1::nat) < length (discovered chain3 (length f_atoms3))"
    by (simp add: chain3_discovered)
  from bond_ids_in_discovery_order [OF chain3_init]
  have nb: "num_bonds chain3_mapper = 2 * length (discovered chain3 (length f_atoms3))"
    and all: "\<forall>j<length (discovered chain3 (length f_atoms3)).
               bond_to_ini_atom chain3_mapper ! (2 * j + 1)
                 = fst (discovered chain3 (length f_atoms3) ! j)
               \<and> bond_to_ini_atom chain3_mapper ! (2 * j + 1 + 1)
                   = snd (discovered chain3 (length f_atoms3) ! j)
               \<and> b2revb chain3_mapper ! (2 * j + 1) = 2 * j + 1 + 1
               \<and> b2revb chain3_mapper ! (2 * j + 1 + 1) = 2 * j + 1
               \<and> fst (discovered chain3 (length f_atoms3) ! j)
                   < snd (discovered chain3 (length f_atoms3) ! j)"
    by blast+
  from all j have "bond_to_ini_atom chain3_mapper ! (2 * 1 + 1)
                 = fst (discovered chain3 (length f_atoms3) ! 1)
               \<and> bond_to_ini_atom chain3_mapper ! (2 * 1 + 1 + 1)
                   = snd (discovered chain3 (length f_atoms3) ! 1)
               \<and> b2revb chain3_mapper ! (2 * 1 + 1) = 2 * 1 + 1 + 1
               \<and> b2revb chain3_mapper ! (2 * 1 + 1 + 1) = 2 * 1 + 1"
    by blast
  with nb j chain3_init show ?thesis
    by (simp add: chain3_discovered)
qed

lemma chain3_discover: "discover_bonds (init_fields chain3 15 f_atoms3) = Inr chain3_discovery"
  by code_simp

lemma length_pad_row: "length row \<le> m \<Longrightarrow> length (pad_row m row) = m"
  by (simp add: pad_row_def)

lemma length_le_max_width: "row \<in> set rows \<Longrightarrow> length row \<le> max_width rows"
proof -
  assume "row \<in> set rows"
  then have "length row \<le> Max (set (map length rows))"
    by (intro Max_ge) auto
  then show ?thesis by (simp add: max_width_def)
qed

lemma length_scrub: "length (scrub i row) = length row"
  by (simp add: scrub_def)

text \<open>
  C4. After the padding phase every row of \<open>atom_to_incoming_bonds\<close>, for the indices 0
  to \<open>num_atoms\<close>, is the row the discovery left, padded on the right with zeros to the
  length \<open>M = max(1, longest row)\<close>, the longest row being the maximum in-degree over the
  atoms; every row of the final \<open>self.mapping\<close> has the width \<open>M\<close> too.
\<close>

theorem rows_padded_to_common_width:
  assumes "discover_bonds (init_fields mol fdim f_atoms) = Inr s1"
    and "MapperDMPNN_init mol fdim f_atoms = Inr s"
  shows "int (length (atom_to_incoming_bonds s)) = num_atoms s + 1
         \<and> (\<forall>a<length (atom_to_incoming_bonds s).
               atom_to_incoming_bonds s ! a
                 = atom_to_incoming_bonds s1 ! a
                   @ replicate (max 1 (Max (set (map length (atom_to_incoming_bonds s1))))
                                - length (atom_to_incoming_bonds s1 ! a)) 0
               \<and> length (atom_to_incoming_bonds s ! a)
                   = max 1 (Max (set (map length (atom_to_incoming_bonds s1)))))
         \<and> length (mapping s) = num_bonds s + 1
         \<and> (\<forall>row\<in>set (mapping s).
               length row = max 1 (Max (set (map length (atom_to_incoming_bonds s1)))))"
proof -
  let ?rows = "atom_to_incoming_bonds s1"
  let ?M = "max_width ?rows"
  from MapperDMPNN_init_Inr [OF assms(2)] assms(1) have
    inv: "discovery_inv (init_fields mol fdim f_atoms) (discovered mol (length f_atoms)) s1"
    and ne: "f_atoms \<noteq> []"
    and len: "length ?rows = length f_atoms"
    and rng: "\<forall>a\<in>set (bond_to_ini_atom s1). a < length ?rows"
    and s: "s = s1\<lparr>atom_to_incoming_bonds := map (pad_row ?M) ?rows,
                     mapping := map (\<lambda>i. scrub (b2revb s1 ! i)
                                  (pad_row ?M (?rows ! (bond_to_ini_atom s1 ! i))))
                         [0..<length (b2revb s1)]\<rparr>"
    by auto
  have M: "?M = max 1 (Max (set (map length ?rows)))"
    by (simp add: max_width_def)
  have na: "int (length (atom_to_incoming_bonds s)) = num_atoms s + 1"
    using inv ne len by (simp add: s discovery_inv_def init_fields_def Let_def)
  have rows: "atom_to_incoming_bonds s ! a = ?rows ! a @ replicate (?M - length (?rows ! a)) 0
               \<and> length (atom_to_incoming_bonds s ! a) = ?M"
    if "a < length (atom_to_incoming_bonds s)" for a
  proof -
    from that have a: "a < length ?rows" by (simp add: s)
    then have "length (?rows ! a) \<le> ?M" by (intro length_le_max_width) simp
    with a show ?thesis by (simp add: s pad_row_def)
  qed
  have lm: "length (mapping s) = num_bonds s + 1"
    using discovery_inv_lengths(2) [OF inv] inv by (simp add: s discovery_inv_def)
  have widths: "length row = ?M" if "row \<in> set (mapping s)" for row
  proof -
    from that obtain i where i: "i < length (b2revb s1)"
      and row: "row = scrub (b2revb s1 ! i) (pad_row ?M (?rows ! (bond_to_ini_atom s1 ! i)))"
      by (auto simp: s)
    have "i < length (bond_to_ini_atom s1)"
      using i discovery_inv_lengths [OF inv] by simp
    then have "bond_to_ini_atom s1 ! i < length ?rows" using rng by simp
    then have "length (?rows ! (bond_to_ini_atom s1 ! i)) \<le> ?M"
      by (intro length_le_max_width) simp
    then show ?thesis by (simp add: row length_scrub length_pad_row)
  qed
  show ?thesis
    unfolding M [symmetric] using na rows lm widths by blast
qed

theorem rows_padded_to_common_width_witness:
  "discover_bonds (init_fields chain3 15 f_atoms3) = Inr chain3_discovery
   \<and> MapperDMPNN_init chain3 15 f_atoms3 = Inr chain3_mapper
   \<and> max 1 (Max (set (map length (atom_to_incoming_bonds chain3_discovery)))) = 2
   \<and> (1::nat) < length (atom_to_incoming_bonds chain3_mapper)
   \<and> atom_to_incoming_bonds chain3_discovery ! 1 = [2]
   \<and> atom_to_incoming_bonds chain3_mapper ! 1 = [2] @ replicate (2 - 1) 0
   \<and> length (atom_to_incoming_bonds chain3_mapper ! 1) = 2
   \<and> [1, 0] \<in> set (mapping chain3_mapper) \<and> length [1, 0 :: nat] = 2"
proof -
  have M: "max 1 (Max (set (map length (atom_to_incoming_bonds chain3_discovery)))) = 2"
    by (simp add: chain3_discovery_def chain3_mapper_def)
  have a: "(1::nat) < length (atom_to_incoming_bonds chain3_mapper)"
    and row1: "atom_to_incoming_bonds chain3_discovery ! 1 = [2]"
    and r: "[1, 0] \<in> set (mapping chain3_mapper)"
    by (simp_all add: chain3_discovery_def chain3_mapper_def)
  from rows_padded_to_common_width [OF chain3_discover chain3_init] a r
  have "atom_to_incoming_bonds chain3_mapper ! 1
          = atom_to_incoming_bonds chain3_discovery ! 1
            @ replicate (max 1 (Max (set (map length (atom_to_incoming_bonds chain3_discovery))))
                         - length (atom_to_incoming_bonds chain3_discovery ! 1)) 0"
    and "length (atom_to_incoming_bonds chain3_mapper ! 1)
          = max 1 (Max (set (map length (atom_to_incoming_bonds chain3_discovery))))"
    and "length [1, 0 :: nat]
          = max 1 (Max (set (map length (atom_to_incoming_bonds chain3_discovery))))"
    by blast+
  then show ?thesis
    unfolding M row1 using chain3_discover chain3_init a row1 r M by simp
qed

lemma concat_map_single:
  "concat (map (\<lambda>a. if c = a then [v] else []) [0..<n]) = (if c < n then [v] else [])"
  by (induction n) auto

lemma mset_concat_map_append:
  "mset (concat (map (\<lambda>a. f a @ g a) xs))
     = mset (concat (map f xs)) + mset (concat (map g xs))"
  by (induction xs) auto

lemma mset_concat_incoming:
  assumes "\<forall>p\<in>set D. fst p < n \<and> snd p < n"
  shows "mset (concat (map (incoming D) [0..<n])) = mset [1..<2 * length D + 1]"
  using assms
proof (induction D rule: rev_induct)
  case Nil
  have "concat (map (\<lambda>a. []) [0..<n]) = ([] :: nat list)"
    by (induction n) auto
  then show ?case by (simp add: incoming_def)
next
  case (snoc p D)
  then have ih: "mset (concat (map (incoming D) [0..<n])) = mset [1..<2 * length D + 1]"
    and p: "fst p < n" "snd p < n"
    by simp_all
  let ?g = "\<lambda>a. if snd p = a then [2 * length D + 1] else []"
  let ?h = "\<lambda>a. if fst p = a then [2 * length D + 2] else []"
  have "map (incoming (D @ [p])) [0..<n] = map (\<lambda>a. incoming D a @ (?g a @ ?h a)) [0..<n]"
    by (rule map_cong) (simp_all add: incoming_snoc)
  then have "mset (concat (map (incoming (D @ [p])) [0..<n]))
      = mset (concat (map (\<lambda>a. incoming D a @ (?g a @ ?h a)) [0..<n]))"
    by (rule arg_cong)
  also have "\<dots> = mset (concat (map (incoming D) [0..<n]))
      + mset (concat (map (\<lambda>a. ?g a @ ?h a) [0..<n]))"
    by (rule mset_concat_map_append)
  also have "mset (concat (map (\<lambda>a. ?g a @ ?h a) [0..<n]))
      = mset (concat (map ?g [0..<n])) + mset (concat (map ?h [0..<n]))"
    by (rule mset_concat_map_append)
  also have "concat (map ?g [0..<n]) = [2 * length D + 1]"
    using p by (simp add: concat_map_single)
  also have "concat (map ?h [0..<n]) = [2 * length D + 2]"
    using p by (simp add: concat_map_single)
  also have "mset (concat (map (incoming D) [0..<n]))
               + (mset [2 * length D + 1] + mset [2 * length D + 2])
             = mset [1..<2 * length (D @ [p]) + 1]"
    by (simp add: ih)
  finally show ?case .
qed

lemma incoming_mem:
  "i \<in> set (incoming D a) \<longleftrightarrow>
     (\<exists>j<length D. (i = 2 * j + 1 \<and> snd (D ! j) = a) \<or> (i = 2 * j + 2 \<and> fst (D ! j) = a))"
  by (auto simp: incoming_def split: if_splits)

lemma discovery_rows:
  assumes "discovery_inv s0 D s"
  shows "atom_to_incoming_bonds s
           = map (incoming D) [0..<length (atom_to_incoming_bonds s0)]"
  using assms by (intro nth_equalityI) (auto simp: discovery_inv_def)


lemma discovery_target:
  assumes inv: "discovery_inv s0 D s" and i: "1 \<le> i" "i \<le> 2 * length D"
    and n: "n = length (atom_to_incoming_bonds s0)"
  shows "bond_to_ini_atom s ! (b2revb s ! i) < n"
    and "i \<in> set (incoming D (bond_to_ini_atom s ! (b2revb s ! i)))"
    and "i \<in> set (incoming D a) \<Longrightarrow> a = bond_to_ini_atom s ! (b2revb s ! i)"
proof -
  have rng: "\<forall>p\<in>set D. fst p < n \<and> snd p < n"
    using inv n by (simp add: discovery_inv_def)
  from i have "bond_to_ini_atom s ! (b2revb s ! i) < n
      \<and> i \<in> set (incoming D (bond_to_ini_atom s ! (b2revb s ! i)))
      \<and> (i \<in> set (incoming D a) \<longrightarrow> a = bond_to_ini_atom s ! (b2revb s ! i))"
  proof (cases rule: bond_id_cases)
    case (1 j)
    have t: "bond_to_ini_atom s ! (b2revb s ! i) = snd (D ! j)"
      using discovery_inv_nth [OF inv 1(1)] 1(2) by simp
    have "i \<in> set (incoming D a) \<longrightarrow> a = snd (D ! j)"
      unfolding incoming_mem 1(2) by auto presburger
    moreover have "i \<in> set (incoming D (snd (D ! j)))"
      unfolding incoming_mem using 1 by blast
    moreover have "snd (D ! j) < n" using rng 1(1) by simp
    ultimately show ?thesis unfolding t by blast
  next
    case (2 j)
    have t: "bond_to_ini_atom s ! (b2revb s ! i) = fst (D ! j)"
      using discovery_inv_nth [OF inv 2(1)] 2(2) by simp
    have "i \<in> set (incoming D a) \<longrightarrow> a = fst (D ! j)"
      unfolding incoming_mem 2(2) by auto presburger
    moreover have "i \<in> set (incoming D (fst (D ! j)))"
      unfolding incoming_mem using 2 by blast
    moreover have "fst (D ! j) < n" using rng 2(1) by simp
    ultimately show ?thesis unfolding t by blast
  qed
  then show "bond_to_ini_atom s ! (b2revb s ! i) < n"
    and "i \<in> set (incoming D (bond_to_ini_atom s ! (b2revb s ! i)))"
    and "i \<in> set (incoming D a) \<Longrightarrow> a = bond_to_ini_atom s ! (b2revb s ! i)"
    by blast+
qed

text \<open>
  C9. After the discovery loop, before the padding, every directed bond id in
  \<open>[1, num_bonds]\<close> occurs exactly once in all the rows of \<open>atom_to_incoming_bonds\<close>
  together, in the row of the atom the bond points into: \<open>a2\<close> for the first id of a
  discovered pair \<open>(a1, a2)\<close>, \<open>a1\<close> for the second, which is the initial atom of the
  reverse bond. The row of the padding atom 0 is empty, and every entry of a row is one
  of these ids, so it is not 0 and no row repeats an entry.
\<close>

theorem incoming_bonds_after_discovery:
  assumes "discover_bonds (init_fields mol fdim f_atoms) = Inr s1"
    and "f_atoms \<noteq> []"
  shows "length (atom_to_incoming_bonds s1) = length f_atoms
         \<and> atom_to_incoming_bonds s1 ! 0 = []
         \<and> distinct (concat (atom_to_incoming_bonds s1))
         \<and> set (concat (atom_to_incoming_bonds s1)) = {1..num_bonds s1}
         \<and> (\<forall>i. 1 \<le> i \<and> i \<le> num_bonds s1 \<longrightarrow>
               count_list (concat (atom_to_incoming_bonds s1)) i = 1
               \<and> bond_to_ini_atom s1 ! (b2revb s1 ! i) < length (atom_to_incoming_bonds s1)
               \<and> i \<in> set (atom_to_incoming_bonds s1 ! (bond_to_ini_atom s1 ! (b2revb s1 ! i)))
               \<and> (\<forall>a<length (atom_to_incoming_bonds s1).
                     i \<in> set (atom_to_incoming_bonds s1 ! a)
                     \<longrightarrow> a = bond_to_ini_atom s1 ! (b2revb s1 ! i)))
         \<and> (\<forall>j<length (discovered mol (length f_atoms)).
               2 * j + 1 \<in> set (atom_to_incoming_bonds s1
                                   ! snd (discovered mol (length f_atoms) ! j))
               \<and> 2 * j + 2 \<in> set (atom_to_incoming_bonds s1
                                       ! fst (discovered mol (length f_atoms) ! j)))
         \<and> (\<forall>a<length (atom_to_incoming_bonds s1).
               distinct (atom_to_incoming_bonds s1 ! a)
               \<and> (\<forall>i\<in>set (atom_to_incoming_bonds s1 ! a). 1 \<le> i \<and> i \<le> num_bonds s1))"
proof -
  let ?s0 = "init_fields mol fdim f_atoms"
  let ?n = "length f_atoms"
  let ?D = "discovered mol ?n"
  let ?rows = "atom_to_incoming_bonds s1"
  note inv = discover_bonds_inv [OF assms(1)]
  have n0: "length (atom_to_incoming_bonds ?s0) = ?n"
    by (simp add: init_fields_simps)
  have len: "length ?rows = ?n"
    using inv by (simp add: discovery_inv_def n0)
  have nb: "num_bonds s1 = 2 * length ?D"
    using inv by (simp add: discovery_inv_def)
  have rng: "\<forall>p\<in>set ?D. fst p < ?n \<and> snd p < ?n"
    using inv by (simp add: discovery_inv_def n0)
  have rows: "?rows = map (incoming ?D) [0..<?n]"
    using discovery_rows [OF inv] by (simp add: n0)
  have row: "?rows ! a = incoming ?D a" if "a < ?n" for a
    using that by (simp add: rows)
  have ms: "mset (concat ?rows) = mset [1..<num_bonds s1 + 1]"
    unfolding rows nb by (rule mset_concat_incoming [OF rng])
  have dist: "distinct (concat ?rows)"
    using mset_eq_imp_distinct_iff [OF ms] by simp
  have st: "set (concat ?rows) = {1..num_bonds s1}"
    using mset_eq_setD [OF ms] by auto
  have pos: "1 \<le> fst p \<and> 1 \<le> snd p" if "p \<in> set ?D" for p
    using that unfolding discovered_def by (auto simp: set_all_pairs)
  have "incoming ?D 0 = []"
  proof -
    have "i \<notin> set (incoming ?D 0)" for i
    proof
      assume "i \<in> set (incoming ?D 0)"
      then obtain j where j: "j < length ?D" and z: "snd (?D ! j) = 0 \<or> fst (?D ! j) = 0"
        unfolding incoming_mem by blast
      from j have "?D ! j \<in> set ?D" by simp
      from pos [OF this] z show False by auto
    qed
    then show ?thesis by (cases "incoming ?D 0") force+
  qed
  then have row0: "?rows ! 0 = []"
    using assms(2) by (simp add: row)
  have ids: "count_list (concat ?rows) i = 1
               \<and> bond_to_ini_atom s1 ! (b2revb s1 ! i) < length ?rows
               \<and> i \<in> set (?rows ! (bond_to_ini_atom s1 ! (b2revb s1 ! i)))
               \<and> (\<forall>a<length ?rows. i \<in> set (?rows ! a)
                     \<longrightarrow> a = bond_to_ini_atom s1 ! (b2revb s1 ! i))"
    if "1 \<le> i \<and> i \<le> num_bonds s1" for i
  proof -
    from that have i: "1 \<le> i" "i \<le> 2 * length ?D" using nb by simp_all
    note t = discovery_target [OF inv i n0 [symmetric]]
    have "i \<in> set (concat ?rows)" using that st by simp
    with dist have "count (mset (concat ?rows)) i = 1"
      by (simp add: distinct_count_atmost_1)
    then have c: "count_list (concat ?rows) i = 1" by (simp add: count_mset)
    from t(1) have r: "?rows ! (bond_to_ini_atom s1 ! (b2revb s1 ! i))
                         = incoming ?D (bond_to_ini_atom s1 ! (b2revb s1 ! i))"
      by (rule row)
    have u: "a = bond_to_ini_atom s1 ! (b2revb s1 ! i)"
      if "a < length ?rows" and "i \<in> set (?rows ! a)" for a
      using that t(3) [of a] by (simp add: len row)
    from c t(1) t(2) u show ?thesis unfolding r len by blast
  qed
  have found: "2 * j + 1 \<in> set (?rows ! snd (?D ! j)) \<and> 2 * j + 2 \<in> set (?rows ! fst (?D ! j))"
    if "j < length ?D" for j
  proof -
    from that rng have "fst (?D ! j) < ?n" "snd (?D ! j) < ?n" by simp_all
    then have "?rows ! snd (?D ! j) = incoming ?D (snd (?D ! j))"
      and "?rows ! fst (?D ! j) = incoming ?D (fst (?D ! j))"
      by (simp_all add: row)
    moreover have "2 * j + 1 \<in> set (incoming ?D (snd (?D ! j)))"
      unfolding incoming_mem using that by blast
    moreover have "2 * j + 2 \<in> set (incoming ?D (fst (?D ! j)))"
      unfolding incoming_mem using that by blast
    ultimately show ?thesis by simp
  qed
  have each: "distinct (?rows ! a) \<and> (\<forall>i\<in>set (?rows ! a). 1 \<le> i \<and> i \<le> num_bonds s1)"
    if "a < length ?rows" for a
  proof -
    from that have mem: "?rows ! a \<in> set ?rows" by simp
    with dist have "distinct (?rows ! a)" by (simp add: distinct_concat_iff)
    moreover from mem st have "set (?rows ! a) \<subseteq> {1..num_bonds s1}" by auto
    ultimately show ?thesis by auto
  qed
  show ?thesis
    apply (rule conjI, rule len)
    apply (rule conjI, rule row0)
    apply (rule conjI, rule dist)
    apply (rule conjI, rule st)
    apply (rule conjI)
     apply (rule allI, rule impI, erule ids)
    apply (rule conjI)
     apply (rule allI, rule impI, erule found)
    apply (rule allI, rule impI, erule each)
    done
qed

theorem incoming_bonds_after_discovery_witness:
  "discover_bonds (init_fields chain3 15 f_atoms3) = Inr chain3_discovery
   \<and> f_atoms3 \<noteq> []
   \<and> (1::nat) \<le> 4 \<and> 4 \<le> num_bonds chain3_discovery
   \<and> bond_to_ini_atom chain3_discovery ! (b2revb chain3_discovery ! 4) = 2
   \<and> atom_to_incoming_bonds chain3_discovery ! 2 = [1, 4]
   \<and> count_list (concat (atom_to_incoming_bonds chain3_discovery)) 4 = 1
   \<and> 4 \<in> set (atom_to_incoming_bonds chain3_discovery ! 2)
   \<and> atom_to_incoming_bonds chain3_discovery ! 0 = []"
proof -
  have ne: "f_atoms3 \<noteq> []" by (simp add: f_atoms3_def)
  have i: "(1::nat) \<le> 4 \<and> 4 \<le> num_bonds chain3_discovery"
    by (simp add: chain3_discovery_def chain3_mapper_def)
  have t: "bond_to_ini_atom chain3_discovery ! (b2revb chain3_discovery ! 4) = 2"
    and r: "atom_to_incoming_bonds chain3_discovery ! 2 = [1, 4]"
    by (simp_all add: chain3_discovery_def chain3_mapper_def)
  from incoming_bonds_after_discovery [OF chain3_discover ne] i
  have "count_list (concat (atom_to_incoming_bonds chain3_discovery)) 4 = 1"
    and "4 \<in> set (atom_to_incoming_bonds chain3_discovery
                     ! (bond_to_ini_atom chain3_discovery ! (b2revb chain3_discovery ! 4)))"
    and "atom_to_incoming_bonds chain3_discovery ! 0 = []"
    by blast+
  with chain3_discover ne i t r show ?thesis by simp
qed

subsection \<open>When the construction completes\<close>

lemma visit_pair_succeeds:
  assumes "a1 - 1 < length (GetAtoms (datapoint s))" "a2 - 1 < length (GetAtoms (datapoint s))"
    and "a1 < length (atom_to_incoming_bonds s)" "a2 < length (atom_to_incoming_bonds s)"
    and "a1 < length (f_atoms_zero_padded s)" "a2 < length (f_atoms_zero_padded s)"
    and "\<forall>b. GetBondBetweenAtoms (datapoint s) (a1 - 1) (a2 - 1) = Inr (Some b) \<longrightarrow>
           length (f_atoms_zero_padded s ! a1) + length (bond_features (Some b)) = concat_fdim s
           \<and> length (f_atoms_zero_padded s ! a2) + length (bond_features (Some b))
               = concat_fdim s"
  shows "\<exists>s'. visit_pair a1 a2 s = Inr s'"
proof (cases "GetBondBetweenAtoms (datapoint s) (a1 - 1) (a2 - 1)")
  case (Inl e)
  with assms(1,2) show ?thesis by (simp add: GetBondBetweenAtoms_def)
next
  case (Inr ob)
  show ?thesis
  proof (cases ob)
    case None
    with Inr show ?thesis by (simp add: visit_pair_def update_concat_vector_def)
  next
    case (Some b)
    with Inr assms(7) have
      "length (f_atoms_zero_padded s ! a1) + length (bond_features (Some b)) = concat_fdim s"
      "length (f_atoms_zero_padded s ! a2) + length (bond_features (Some b)) = concat_fdim s"
      by simp_all
    with Inr Some assms(3-6) show ?thesis
      by (simp add: visit_pair_def update_concat_vector_def update_secondary_mappings_def
          extend_concat_feature_def append_at_def getitem_def Let_def)
  qed
qed

lemma pairs_loop_succeeds:
  assumes inv0: "discovery_inv s0 [] s0"
    and "\<forall>p\<in>set ps. fst p - 1 < length (GetAtoms (datapoint s0))
                     \<and> snd p - 1 < length (GetAtoms (datapoint s0))
                     \<and> fst p < length (atom_to_incoming_bonds s0)
                     \<and> snd p < length (atom_to_incoming_bonds s0)
                     \<and> fst p < length (f_atoms_zero_padded s0)
                     \<and> snd p < length (f_atoms_zero_padded s0)"
    and "\<forall>p\<in>set ps. \<forall>b.
           GetBondBetweenAtoms (datapoint s0) (fst p - 1) (snd p - 1) = Inr (Some b) \<longrightarrow>
           length (f_atoms_zero_padded s0 ! fst p) + length (bond_features (Some b))
             = concat_fdim s0
           \<and> length (f_atoms_zero_padded s0 ! snd p) + length (bond_features (Some b))
               = concat_fdim s0"
  shows "\<exists>s. for_each ps (\<lambda>(a1, a2). visit_pair a1 a2) s0 = Inr s"
  using assms(2,3)
proof (induction ps rule: rev_induct)
  case Nil
  show ?case by simp
next
  case (snoc p ps)
  then obtain s1 where s1: "for_each ps (\<lambda>(a1, a2). visit_pair a1 a2) s0 = Inr s1"
    by auto
  from pairs_loop_inv [OF s1 inv0]
  have same: "datapoint s1 = datapoint s0" "concat_fdim s1 = concat_fdim s0"
    "f_atoms_zero_padded s1 = f_atoms_zero_padded s0"
    "length (atom_to_incoming_bonds s1) = length (atom_to_incoming_bonds s0)"
    by (simp_all add: discovery_inv_def)
  have "\<exists>s'. visit_pair (fst p) (snd p) s1 = Inr s'"
    using snoc.prems by (intro visit_pair_succeeds) (simp_all add: same)
  then obtain s' where "visit_pair (fst p) (snd p) s1 = Inr s'" by blast
  then have "for_each (ps @ [p]) (\<lambda>(a1, a2). visit_pair a1 a2) s0 = Inr s'"
    unfolding for_each_append s1 by (cases p) simp
  then show ?case by blast
qed

lemma modify_based_on_max_bonds_succeeds:
  assumes "atom_to_incoming_bonds s \<noteq> []"
    and "length (atom_to_incoming_bonds s) = nat (num_atoms s + 1)"
  shows "\<exists>s'. modify_based_on_max_bonds s = Inr s'"
proof -
  let ?rows = "atom_to_incoming_bonds s"
  let ?m = "Max (set (map length ?rows))"
  let ?f = "\<lambda>a. case getitem ?rows a of Inl e \<Rightarrow> Inl e
                       | Inr row \<Rightarrow> Inr (row @ replicate (max 1 ?m - length row) 0)"
  have m: "py_max (map length ?rows) = Inr ?m"
    using assms(1) by (intro py_max_nonempty) simp
  have "list_all2 (\<lambda>a y. ?f a = Inr y) [0..<length ?rows]
          (map (\<lambda>row. row @ replicate (max 1 ?m - length row) 0) ?rows)"
    by (simp add: list_all2_conv_all_nth getitem_def del: One_nat_def)
  then have me: "map_err ?f (py_range 0 (nat (num_atoms s + 1)))
          = Inr (map (\<lambda>row. row @ replicate (max 1 ?m - length row) 0) ?rows)"
    unfolding map_err_Inr_iff py_range_def assms(2) .
  show ?thesis
    unfolding modify_based_on_max_bonds_def Let_def m sum.case me by blast
qed

lemma scrub_loop_succeeds:
  "length revs \<le> length (mapping s) \<Longrightarrow>
     \<exists>s'. for_each (enumerate 0 revs) replace_rev_bond s = Inr s'"
proof (induction revs rule: rev_induct)
  case Nil
  show ?case by simp
next
  case (snoc r revs)
  then obtain s1 where s1: "for_each (enumerate 0 revs) replace_rev_bond s = Inr s1"
    by auto
  from scrub_loop [OF s1] have "length (mapping s1) = length (mapping s)" by auto
  with snoc.prems have "length revs < length (mapping s1)" by simp
  then have "\<exists>s'. replace_rev_bond (length revs, r) s1 = Inr s'"
    unfolding replace_rev_bond_Inr by simp
  then show ?case
    by (auto simp: enumerate_snoc for_each_append s1)
qed

text \<open>
  The construction completes when the atom feature table has its padding row and at
  most one more row for each atom of the molecule, and the row widths fit
  \<open>concat_fdim\<close> wherever a bond is found.
\<close>

lemma MapperDMPNN_init_succeeds:
  assumes ne: "f_atoms \<noteq> []"
    and le: "length f_atoms \<le> length (GetAtoms mol) + 1"
    and widths: "\<forall>p\<in>set (all_pairs (length f_atoms)). \<forall>b.
           GetBondBetweenAtoms mol (fst p - 1) (snd p - 1) = Inr (Some b) \<longrightarrow>
           length (f_atoms ! fst p) + length (bond_features (Some b)) = fdim
           \<and> length (f_atoms ! snd p) + length (bond_features (Some b)) = fdim"
  shows "\<exists>s. MapperDMPNN_init mol fdim f_atoms = Inr s"
proof -
  let ?s0 = "init_fields mol fdim f_atoms"
  let ?n = "length f_atoms"
  have rng: "\<forall>p\<in>set (all_pairs ?n). fst p - 1 < length (GetAtoms (datapoint ?s0))
                     \<and> snd p - 1 < length (GetAtoms (datapoint ?s0))
                     \<and> fst p < length (atom_to_incoming_bonds ?s0)
                     \<and> snd p < length (atom_to_incoming_bonds ?s0)
                     \<and> fst p < length (f_atoms_zero_padded ?s0)
                     \<and> snd p < length (f_atoms_zero_padded ?s0)"
    using le by (auto simp: set_all_pairs init_fields_simps)
  have w: "\<forall>p\<in>set (all_pairs ?n). \<forall>b.
           GetBondBetweenAtoms (datapoint ?s0) (fst p - 1) (snd p - 1) = Inr (Some b) \<longrightarrow>
           length (f_atoms_zero_padded ?s0 ! fst p) + length (bond_features (Some b))
             = concat_fdim ?s0
           \<and> length (f_atoms_zero_padded ?s0 ! snd p) + length (bond_features (Some b))
               = concat_fdim ?s0"
    using widths by (simp add: init_fields_simps)
  from pairs_loop_succeeds [OF discovery_inv_init rng w]
  obtain s1 where s1: "discover_bonds ?s0 = Inr s1"
    by (auto simp: discover_bonds_flat init_fields_simps)
  note inv = discover_bonds_inv [OF s1]
  have len1: "length (atom_to_incoming_bonds s1) = nat (num_atoms s1 + 1)"
    and ne1: "atom_to_incoming_bonds s1 \<noteq> []"
    using inv ne by (auto simp: discovery_inv_def init_fields_simps)
  from modify_based_on_max_bonds_succeeds [OF ne1 len1]
  obtain s2 where s2: "modify_based_on_max_bonds s1 = Inr s2" by blast
  from modify_based_on_max_bonds_Inr [OF s2 len1]
  have s2_eq: "s2 = s1\<lparr>atom_to_incoming_bonds :=
                         map (pad_row (max_width (atom_to_incoming_bonds s1)))
                           (atom_to_incoming_bonds s1)\<rparr>"
    by simp
  have ini: "\<forall>a\<in>set (bond_to_ini_atom s1). a < length (atom_to_incoming_bonds s1)"
  proof
    fix a assume "a \<in> set (bond_to_ini_atom s1)"
    then have "a = 0 \<or> (\<exists>p\<in>set (discovered mol ?n). a = fst p \<or> a = snd p)"
      using inv by (auto simp: discovery_inv_def)
    moreover have "0 < length (atom_to_incoming_bonds s1)" using ne1 by simp
    moreover have "\<forall>p\<in>set (discovered mol ?n). fst p < length (atom_to_incoming_bonds s1)
                     \<and> snd p < length (atom_to_incoming_bonds s1)"
      using inv by (simp add: discovery_inv_def)
    ultimately show "a < length (atom_to_incoming_bonds s1)" by auto
  qed
  let ?m = "map ((!) (atom_to_incoming_bonds s2)) (bond_to_ini_atom s2)"
  have m: "take_rows (atom_to_incoming_bonds s2) (bond_to_ini_atom s2) = Inr ?m"
    unfolding take_rows_Inr using ini by (simp add: s2_eq)
  have "length (b2revb (s2\<lparr>mapping := ?m\<rparr>)) \<le> length (mapping (s2\<lparr>mapping := ?m\<rparr>))"
    using discovery_inv_lengths [OF inv] by (simp add: s2_eq)
  from scrub_loop_succeeds [OF this]
  obtain s where "replace_rev_bonds (s2\<lparr>mapping := ?m\<rparr>) = Inr s"
    unfolding replace_rev_bonds_def by blast
  with s1 s2 m show ?thesis
    by (simp add: MapperDMPNN_init_def generate_mapping_def)
qed

lemma no_bonds_not_bonded: "GetBonds mol = [] \<Longrightarrow> \<not> bonded mol p"
  by (simp add: bonded_def GetBondBetweenAtoms_def)

lemma incoming_Nil: "incoming [] a = []"
  by (simp add: incoming_def)

text \<open>
  C5. For a molecule with no bonds, of any number of atoms (zero too), given the atom
  feature table with the padding row and one row for each atom, the construction raises
  no exception: it returns a mapper with \<open>num_bonds = 0\<close>, a concatenated feature table
  of the single all-zero padding row of width \<open>concat_fdim\<close>, and a mapping whose rows
  (there is one, for the padding bond) are all zero and of width 1.
\<close>

theorem zero_bonds_minimal_tables:
  assumes "GetBonds mol = []"
    and "length f_atoms = length (GetAtoms mol) + 1"
  shows "\<exists>s. MapperDMPNN_init mol fdim f_atoms = Inr s
           \<and> num_bonds s = 0
           \<and> f_ini_atoms_bonds_zero_padded s = [replicate fdim 0]
           \<and> length (f_ini_atoms_bonds_zero_padded s ! 0) = fdim
           \<and> mapping s = [[0]]
           \<and> (\<forall>row\<in>set (mapping s). length row = 1 \<and> (\<forall>x\<in>set row. x = 0))
           \<and> atom_to_incoming_bonds s = replicate (length f_atoms) [0]"
proof -
  let ?n = "length f_atoms"
  let ?s0 = "init_fields mol fdim f_atoms"
  have ne: "f_atoms \<noteq> []" using assms(2) by auto
  have "\<exists>s. MapperDMPNN_init mol fdim f_atoms = Inr s"
    using ne assms
    by (intro MapperDMPNN_init_succeeds) (simp_all add: GetBondBetweenAtoms_def)
  then obtain s where s: "MapperDMPNN_init mol fdim f_atoms = Inr s" by blast
  have D: "discovered mol ?n = []"
    unfolding discovered_def using no_bonds_not_bonded [OF assms(1)] by simp
  from MapperDMPNN_init_Inr [OF s] obtain s1 where
    inv: "discovery_inv ?s0 [] s1"
    and len: "length (atom_to_incoming_bonds s1) = ?n"
    and s_eq: "s = s1\<lparr>atom_to_incoming_bonds :=
                       map (pad_row (max_width (atom_to_incoming_bonds s1)))
                         (atom_to_incoming_bonds s1),
                     mapping :=
                       map (\<lambda>i. scrub (b2revb s1 ! i)
                                  (pad_row (max_width (atom_to_incoming_bonds s1))
                                     (atom_to_incoming_bonds s1 ! (bond_to_ini_atom s1 ! i))))
                         [0..<length (b2revb s1)]\<rparr>"
    unfolding D by blast
  have "map (incoming []) [0..<?n] = map (\<lambda>a. []) [0..<?n]"
    by (rule map_cong) (simp_all add: incoming_Nil)
  then have rows: "atom_to_incoming_bonds s1 = replicate ?n []"
    using discovery_rows [OF inv]
    by (simp add: init_fields_simps map_replicate_const)
  have mw': "max_width (replicate ?n ([] :: nat list)) = 1"
    using ne by (simp add: max_width_def)
  then have mw: "max_width (atom_to_incoming_bonds s1) = 1"
    by (simp add: rows)
  have nb: "num_bonds s = 0" using inv by (simp add: s_eq discovery_inv_def)
  have "length (f_ini_atoms_bonds_zero_padded s1) = 1"
    and "f_ini_atoms_bonds_zero_padded s1 ! 0 = replicate fdim 0"
    using inv by (simp_all add: discovery_inv_def init_fields_simps)
  then have tab: "f_ini_atoms_bonds_zero_padded s = [replicate fdim 0]"
    by (cases "f_ini_atoms_bonds_zero_padded s1") (simp_all add: s_eq)
  have revs: "b2revb s1 = [0]" "bond_to_ini_atom s1 = [0]"
    using inv by (simp_all add: discovery_inv_def)
  have mp: "mapping s = [[0]]"
    using ne by (simp add: s_eq revs rows mw' pad_row_def scrub_def)
  have padded: "atom_to_incoming_bonds s = replicate ?n [0]"
    by (simp add: s_eq rows mw' pad_row_def)
  from s nb tab mp padded show ?thesis by simp
qed

theorem zero_bonds_minimal_tables_witness:
  "GetBonds no_bonds3 = [] \<and> length f_atoms3 = length (GetAtoms no_bonds3) + 1
   \<and> (\<exists>s. MapperDMPNN_init no_bonds3 15 f_atoms3 = Inr s \<and> num_bonds s = 0
          \<and> f_ini_atoms_bonds_zero_padded s = [replicate 15 0] \<and> mapping s = [[0]]
          \<and> atom_to_incoming_bonds s = [[0], [0], [0], [0]])"
proof -
  have h: "GetBonds no_bonds3 = []" "length f_atoms3 = length (GetAtoms no_bonds3) + 1"
    by (simp_all add: no_bonds3_def f_atoms3_def)
  from zero_bonds_minimal_tables [OF h, of 15] obtain s where
    "MapperDMPNN_init no_bonds3 15 f_atoms3 = Inr s" "num_bonds s = 0"
    "f_ini_atoms_bonds_zero_padded s = [replicate 15 0]" "mapping s = [[0]]"
    "atom_to_incoming_bonds s = replicate (length f_atoms3) [0]"
    by blast
  moreover have "replicate (length f_atoms3) [0::nat] = [[0], [0], [0], [0]]"
    by (simp add: f_atoms3_def)
  ultimately show ?thesis using h by auto
qed

lemma bonded_iff:
  assumes "fst p - 1 < length (GetAtoms mol)" "snd p - 1 < length (GetAtoms mol)"
  shows "bonded mol p \<longleftrightarrow>
           (\<exists>b\<in>set (GetBonds mol).
              (GetBeginAtomIdx b = fst p - 1 \<and> GetEndAtomIdx b = snd p - 1)
              \<or> (GetBeginAtomIdx b = snd p - 1 \<and> GetEndAtomIdx b = fst p - 1))"
proof -
  let ?P = "\<lambda>b. (GetBeginAtomIdx b = fst p - 1 \<and> GetEndAtomIdx b = snd p - 1)
              \<or> (GetBeginAtomIdx b = snd p - 1 \<and> GetEndAtomIdx b = fst p - 1)"
  have "bonded mol p \<longleftrightarrow> find ?P (GetBonds mol) \<noteq> None"
    using assms by (auto simp: bonded_def GetBondBetweenAtoms_def split: option.splits)
  also have "\<dots> \<longleftrightarrow> (\<exists>b\<in>set (GetBonds mol). ?P b)"
    by (auto simp: find_None_iff)
  finally show ?thesis .
qed

lemma set_discovered:
  assumes "wf_mol mol"
  shows "set (discovered mol (length (GetAtoms mol) + 1)) = bond_pair ` set (GetBonds mol)"
proof (intro set_eqI iffI)
  fix p assume "p \<in> set (discovered mol (length (GetAtoms mol) + 1))"
  then have ap: "1 \<le> fst p" "fst p < snd p" "snd p < length (GetAtoms mol) + 1"
    and b: "bonded mol p"
    by (auto simp: discovered_def set_all_pairs)
  from ap have "fst p - 1 < length (GetAtoms mol)" "snd p - 1 < length (GetAtoms mol)"
    by simp_all
  from bonded_iff [OF this] b obtain bd where bd: "bd \<in> set (GetBonds mol)"
    and e: "(GetBeginAtomIdx bd = fst p - 1 \<and> GetEndAtomIdx bd = snd p - 1)
              \<or> (GetBeginAtomIdx bd = snd p - 1 \<and> GetEndAtomIdx bd = fst p - 1)"
    by blast
  from e ap have "bond_pair bd = (fst p, snd p)"
    by (auto simp: bond_pair_def)
  with bd show "p \<in> bond_pair ` set (GetBonds mol)" by force
next
  fix p assume "p \<in> bond_pair ` set (GetBonds mol)"
  then obtain bd where bd: "bd \<in> set (GetBonds mol)" and p: "p = bond_pair bd" by blast
  from assms bd have r: "GetBeginAtomIdx bd < length (GetAtoms mol)"
    "GetEndAtomIdx bd < length (GetAtoms mol)" "GetBeginAtomIdx bd \<noteq> GetEndAtomIdx bd"
    by (auto simp: wf_mol_def)
  have ap: "1 \<le> fst p" "fst p < snd p" "snd p < length (GetAtoms mol) + 1"
    using r by (auto simp: p bond_pair_def)
  have e: "(GetBeginAtomIdx bd = fst p - 1 \<and> GetEndAtomIdx bd = snd p - 1)
              \<or> (GetBeginAtomIdx bd = snd p - 1 \<and> GetEndAtomIdx bd = fst p - 1)"
    using r by (auto simp: p bond_pair_def min_def max_def)
  from ap have "fst p - 1 < length (GetAtoms mol)" "snd p - 1 < length (GetAtoms mol)"
    by simp_all
  from bonded_iff [OF this] bd e have "bonded mol p" by blast
  moreover have "p \<in> set (all_pairs (length (GetAtoms mol) + 1))"
    unfolding set_all_pairs using ap by (cases p) simp
  ultimately show "p \<in> set (discovered mol (length (GetAtoms mol) + 1))"
    by (simp add: discovered_def)
qed

lemma length_discovered:
  assumes "wf_mol mol"
  shows "length (discovered mol (length (GetAtoms mol) + 1)) = length (GetBonds mol)"
proof -
  let ?D = "discovered mol (length (GetAtoms mol) + 1)"
  have "distinct ?D"
    unfolding discovered_def by (rule distinct_filter [OF distinct_all_pairs])
  then have "length ?D = card (set ?D)" by (simp add: distinct_card)
  also have "\<dots> = card (set (map bond_pair (GetBonds mol)))"
    unfolding set_discovered [OF assms] by simp
  also have "\<dots> = length (map bond_pair (GetBonds mol))"
    using assms by (intro distinct_card) (simp add: wf_mol_def)
  finally show ?thesis by simp
qed

text \<open>
  C2. For a well-formed molecule with \<open>B\<close> bonds, given the atom feature table with the
  padding row and one row for each atom, a completed construction has \<open>num_bonds = 2B\<close>
  and a concatenated feature table of exactly \<open>2B + 1\<close> rows: the all-zero padding
  row 0 and two rows for each bond, all of width \<open>concat_fdim\<close>.
\<close>

theorem two_rows_per_bond:
  assumes "wf_mol mol"
    and "length f_atoms = length (GetAtoms mol) + 1"
    and "MapperDMPNN_init mol fdim f_atoms = Inr s"
  shows "num_bonds s = 2 * length (GetBonds mol)
         \<and> length (f_ini_atoms_bonds_zero_padded s) = 2 * length (GetBonds mol) + 1
         \<and> f_ini_atoms_bonds_zero_padded s ! 0 = replicate fdim 0
         \<and> (\<forall>row\<in>set (f_ini_atoms_bonds_zero_padded s). length row = fdim)"
proof -
  from MapperDMPNN_init_Inr [OF assms(3)] obtain s1 where
    inv: "discovery_inv (init_fields mol fdim f_atoms) (discovered mol (length f_atoms)) s1"
    and s: "s = s1\<lparr>atom_to_incoming_bonds :=
                       map (pad_row (max_width (atom_to_incoming_bonds s1)))
                         (atom_to_incoming_bonds s1),
                     mapping :=
                       map (\<lambda>i. scrub (b2revb s1 ! i)
                                  (pad_row (max_width (atom_to_incoming_bonds s1))
                                     (atom_to_incoming_bonds s1 ! (bond_to_ini_atom s1 ! i))))
                         [0..<length (b2revb s1)]\<rparr>"
    by blast
  have B: "length (discovered mol (length f_atoms)) = length (GetBonds mol)"
    unfolding assms(2) by (rule length_discovered [OF assms(1)])
  from inv show ?thesis
    by (simp add: s discovery_inv_def B init_fields_simps)
qed

theorem two_rows_per_bond_witness:
  "wf_mol chain3 \<and> length f_atoms3 = length (GetAtoms chain3) + 1
   \<and> MapperDMPNN_init chain3 15 f_atoms3 = Inr chain3_mapper
   \<and> length (GetBonds chain3) = 2
   \<and> num_bonds chain3_mapper = 4
   \<and> length (f_ini_atoms_bonds_zero_padded chain3_mapper) = 5
   \<and> f_ini_atoms_bonds_zero_padded chain3_mapper ! 0 = replicate 15 0"
proof -
  have wf: "wf_mol chain3"
    by (simp add: wf_mol_def chain3_def bond_pair_def bond_between_def)
  have len: "length f_atoms3 = length (GetAtoms chain3) + 1"
    by (simp add: f_atoms3_def chain3_def)
  have B: "length (GetBonds chain3) = 2" by (simp add: chain3_def)
  from two_rows_per_bond [OF wf len chain3_init] wf len B chain3_init
  show ?thesis by simp
qed

section \<open>Properties of the mapping array in the store\<close>

lemma np_new_rows_addrs:
  "fst (np_new_rows rows h) = [next_free h..<next_free h + length rows]"
  by (simp add: np_new_rows_def)

lemma np_new_rows_next:
  "next_free (snd (np_new_rows rows h)) = next_free h + length rows"
  by (simp add: np_new_rows_def)

lemma np_new_rows_old:
  "a < next_free h \<Longrightarrow> cells (snd (np_new_rows rows h)) a = cells h a"
  by (simp add: np_new_rows_def)

lemma np_new_rows_new:
  "k < length rows \<Longrightarrow> cells (snd (np_new_rows rows h)) (next_free h + k) = rows ! k"
  by (simp add: np_new_rows_def)

lemma replace_rev_bond_store_Inr:
  "replace_rev_bond_store m (c, i) h = Inr h' \<longleftrightarrow>
     c < length m \<and> h' = h\<lparr>cells := (cells h)(m ! c := scrub i (cells h (m ! c)))\<rparr>"
  unfolding replace_rev_bond_store_def getitem_def
  by (cases "c < length m") (simp_all add: eq_commute)

lemma scrub_store_loop:
  assumes "for_each (enumerate 0 revs) (replace_rev_bond_store m) h = Inr h'"
    and "distinct m"
  shows "length revs \<le> length m
         \<and> next_free h' = next_free h
         \<and> (\<forall>j<length m. cells h' (m ! j)
               = (if j < length revs then scrub (revs ! j) (cells h (m ! j))
                  else cells h (m ! j)))
         \<and> (\<forall>a. a \<notin> set m \<longrightarrow> cells h' a = cells h a)"
  using assms(1)
proof (induction revs arbitrary: h' rule: rev_induct)
  case Nil
  then show ?case by simp
next
  case (snoc r revs)
  from snoc.prems obtain h1 where
    h1: "for_each (enumerate 0 revs) (replace_rev_bond_store m) h = Inr h1"
    and step: "replace_rev_bond_store m (length revs, r) h1 = Inr h'"
    by (auto simp: enumerate_snoc for_each_append split: sum.splits)
  note ih = snoc.IH [OF h1]
  from step have lt: "length revs < length m"
    and h': "h' = h1\<lparr>cells := (cells h1)(m ! length revs
                        := scrub r (cells h1 (m ! length revs)))\<rparr>"
    by (simp_all add: replace_rev_bond_store_Inr)
  have rows: "cells h' (m ! j)
               = (if j < length (revs @ [r]) then scrub ((revs @ [r]) ! j) (cells h (m ! j))
                  else cells h (m ! j))" if j: "j < length m" for j
  proof (cases "j = length revs")
    case True
    with ih lt show ?thesis by (simp add: h')
  next
    case False
    with j lt assms(2) have "m ! j \<noteq> m ! length revs"
      by (simp add: nth_eq_iff_index_eq)
    with False ih j show ?thesis
      by (auto simp: h' nth_append)
  qed
  have others: "cells h' a = cells h a" if "a \<notin> set m" for a
  proof -
    from that lt have "a \<noteq> m ! length revs" by auto
    with ih that show ?thesis by (simp add: h')
  qed
  from lt ih rows others show ?case by (simp add: h')
qed

lemma scrub_store_loop_succeeds:
  "length revs \<le> length m \<Longrightarrow>
     \<exists>h'. for_each (enumerate 0 revs) (replace_rev_bond_store m) h = Inr h'"
proof (induction revs rule: rev_induct)
  case Nil
  show ?case by simp
next
  case (snoc r revs)
  then obtain h1 where h1: "for_each (enumerate 0 revs) (replace_rev_bond_store m) h = Inr h1"
    by auto
  from snoc.prems have "length revs < length m" by simp
  then have "\<exists>h'. replace_rev_bond_store m (length revs, r) h1 = Inr h'"
    unfolding replace_rev_bond_store_Inr by simp
  then show ?case
    by (auto simp: enumerate_snoc for_each_append h1)
qed

lemma constructed_mapping_rows:
  assumes "MapperDMPNN_init mol fdim f_atoms = Inr s"
  shows "length (b2revb s) = num_bonds s + 1"
    and "length (bond_to_ini_atom s) = num_bonds s + 1"
    and "\<forall>a\<in>set (bond_to_ini_atom s). a < length (atom_to_incoming_bonds s)"
    and "mapping s = map (\<lambda>i. scrub (b2revb s ! i)
                               (atom_to_incoming_bonds s ! (bond_to_ini_atom s ! i)))
                       [0..<num_bonds s + 1]"
proof -
  from MapperDMPNN_init_Inr [OF assms] obtain s1 where
    inv: "discovery_inv (init_fields mol fdim f_atoms) (discovered mol (length f_atoms)) s1"
    and rng: "\<forall>a\<in>set (bond_to_ini_atom s1). a < length (atom_to_incoming_bonds s1)"
    and s: "s = s1\<lparr>atom_to_incoming_bonds :=
                       map (pad_row (max_width (atom_to_incoming_bonds s1)))
                         (atom_to_incoming_bonds s1),
                     mapping :=
                       map (\<lambda>i. scrub (b2revb s1 ! i)
                                  (pad_row (max_width (atom_to_incoming_bonds s1))
                                     (atom_to_incoming_bonds s1 ! (bond_to_ini_atom s1 ! i))))
                         [0..<length (b2revb s1)]\<rparr>"
    by blast
  have nb: "num_bonds s1 = 2 * length (discovered mol (length f_atoms))"
    using inv by (simp add: discovery_inv_def)
  note lens = discovery_inv_lengths [OF inv]
  show l1: "length (b2revb s) = num_bonds s + 1"
    and l2: "length (bond_to_ini_atom s) = num_bonds s + 1"
    using lens nb by (simp_all add: s)
  show "\<forall>a\<in>set (bond_to_ini_atom s). a < length (atom_to_incoming_bonds s)"
    using rng by (simp add: s)
  have "map (\<lambda>i. scrub (b2revb s1 ! i)
                   (pad_row (max_width (atom_to_incoming_bonds s1))
                      (atom_to_incoming_bonds s1 ! (bond_to_ini_atom s1 ! i))))
          [0..<length (b2revb s1)]
      = map (\<lambda>i. scrub (b2revb s1 ! i)
                   (map (pad_row (max_width (atom_to_incoming_bonds s1)))
                      (atom_to_incoming_bonds s1) ! (bond_to_ini_atom s1 ! i)))
          [0..<length (b2revb s1)]"
  proof (rule map_cong [OF refl])
    fix i assume "i \<in> set [0..<length (b2revb s1)]"
    then have "i < length (bond_to_ini_atom s1)" using lens by auto
    then have "bond_to_ini_atom s1 ! i < length (atom_to_incoming_bonds s1)"
      using rng by simp
    then show "scrub (b2revb s1 ! i)
                   (pad_row (max_width (atom_to_incoming_bonds s1))
                      (atom_to_incoming_bonds s1 ! (bond_to_ini_atom s1 ! i)))
      = scrub (b2revb s1 ! i)
                   (map (pad_row (max_width (atom_to_incoming_bonds s1)))
                      (atom_to_incoming_bonds s1) ! (bond_to_ini_atom s1 ! i))"
      by simp
  qed
  then show "mapping s = map (\<lambda>i. scrub (b2revb s ! i)
                               (atom_to_incoming_bonds s ! (bond_to_ini_atom s ! i)))
                       [0..<num_bonds s + 1]"
    using lens nb by (simp add: s)
qed

lemma mapping_store_result:
  assumes ini: "\<forall>a\<in>set ini. a < length refs"
    and alloc: "\<forall>a\<in>set refs. a < next_free h"
    and lens: "length revs = length ini"
  shows "\<exists>m h'. mapping_store refs ini revs h = Inr (m, h')
           \<and> m = [next_free h + length refs..<next_free h + length refs + length ini]
           \<and> (\<forall>j<length ini. cells h' (m ! j)
                                = scrub (revs ! j) (cells h (refs ! (ini ! j))))
           \<and> (\<forall>a<next_free h. cells h' a = cells h a)"
proof -
  let ?n = "next_free h"
  let ?arr = "[?n..<?n + length refs]"
  define h1 where "h1 = snd (np_new_rows (map (cells h) refs) h)"
  have asarray: "np_asarray refs h = (?arr, h1)"
    by (simp add: np_asarray_def np_new_rows_def h1_def)
  have n1: "next_free h1 = ?n + length refs"
    by (simp add: h1_def np_new_rows_next)
  have c1_new: "cells h1 (?n + k) = cells h (refs ! k)" if "k < length refs" for k
    using that np_new_rows_new [of k "map (cells h) refs" h] by (simp add: h1_def)
  have c1_old: "cells h1 a = cells h a" if "a < ?n" for a
    using that by (simp add: h1_def np_new_rows_old)
  let ?picked = "map ((!) ?arr) ini"
  have picked: "take_rows ?arr ini = Inr ?picked"
    unfolding take_rows_Inr using ini by simp
  let ?m = "[?n + length refs..<?n + length refs + length ini]"
  define h2 where "h2 = snd (np_new_rows (map (cells h1) ?picked) h1)"
  have fancy: "np_fancy_index ?arr ini h1 = Inr (?m, h2)"
    unfolding np_fancy_index_def picked sum.case h2_def
    by (simp add: np_new_rows_def n1)
  have c2_new: "cells h2 (?m ! j) = cells h (refs ! (ini ! j))" if j: "j < length ini" for j
  proof -
    from j ini have r: "ini ! j < length refs" by simp
    from j have "cells h2 (next_free h1 + j) = map (cells h1) ?picked ! j"
      unfolding h2_def by (intro np_new_rows_new) simp
    also have "\<dots> = cells h1 (?n + ini ! j)" using j r by simp
    also have "\<dots> = cells h (refs ! (ini ! j))" by (rule c1_new [OF r])
    finally show ?thesis using j by (simp add: n1)
  qed
  have c2_old: "cells h2 a = cells h a" if "a < ?n" for a
  proof -
    from that have "a < next_free h1" by (simp add: n1)
    then have "cells h2 a = cells h1 a" unfolding h2_def by (rule np_new_rows_old)
    with c1_old [OF that] show ?thesis by simp
  qed
  have "length revs \<le> length ?m" using lens by simp
  from scrub_store_loop_succeeds [OF this] obtain h' where
    loop: "for_each (enumerate 0 revs) (replace_rev_bond_store ?m) h2 = Inr h'"
    by blast
  have dist: "distinct ?m" by simp
  note post = scrub_store_loop [OF loop dist]
  have rows: "cells h' (?m ! j) = scrub (revs ! j) (cells h (refs ! (ini ! j)))"
    if j: "j < length ini" for j
  proof -
    from j have "j < length ?m" "j < length revs" using lens by simp_all
    with post have "cells h' (?m ! j) = scrub (revs ! j) (cells h2 (?m ! j))" by simp
    with c2_new [OF j] show ?thesis by simp
  qed
  have old: "cells h' a = cells h a" if a: "a < ?n" for a
  proof -
    from a have "a \<notin> set ?m" by simp
    with post have "cells h' a = cells h2 a" by blast
    with c2_old [OF a] show ?thesis by simp
  qed
  have "mapping_store refs ini revs h = Inr (?m, h')"
    unfolding mapping_store_def asarray prod.case fancy sum.case replace_rev_bonds_store_def loop
    by simp
  with rows old show ?thesis by blast
qed


text \<open>
  C10. The reverse-bond scrub is row-local. With the padded incoming-bond lists in the
  store, the end of \<open>_generate_mapping\<close> builds \<open>self.mapping\<close> with one cell of its own
  for each directed bond id: the cells are pairwise different, also for two bonds that
  start at the same atom and whose rows are copies of the same list, and different from
  the cells of the lists. An iteration of \<open>_replace_rev_bonds\<close> for the row \<open>count\<close> writes
  the scrubbed row to the cell of that row and leaves every other cell, so every other
  row of the mapping, as it was. After the loop the rows are the rows of the mapping of
  the constructed mapper, and the incoming-bond lists are unchanged.
\<close>

theorem scrub_is_row_local:
  assumes "MapperDMPNN_init mol fdim f_atoms = Inr s"
    and "map (cells h) refs = atom_to_incoming_bonds s"
    and "\<forall>a\<in>set refs. a < next_free h"
  shows "\<exists>m h'. mapping_store refs (bond_to_ini_atom s) (b2revb s) h = Inr (m, h')
           \<and> length m = num_bonds s + 1
           \<and> distinct m
           \<and> set m \<inter> set refs = {}
           \<and> (\<forall>j<length m. \<forall>k<length m.
                 j \<noteq> k \<and> bond_to_ini_atom s ! j = bond_to_ini_atom s ! k \<longrightarrow> m ! j \<noteq> m ! k)
           \<and> (\<forall>cnt i hs hs'. replace_rev_bond_store m (cnt, i) hs = Inr hs' \<longrightarrow>
                 cnt < length m
                 \<and> cells hs' (m ! cnt) = map (\<lambda>x. if x = i then 0 else x) (cells hs (m ! cnt))
                 \<and> (\<forall>j<length m. j \<noteq> cnt \<longrightarrow> cells hs' (m ! j) = cells hs (m ! j))
                 \<and> (\<forall>a. a \<noteq> m ! cnt \<longrightarrow> cells hs' a = cells hs a))
           \<and> map (cells h') m = mapping s
           \<and> map (cells h') refs = atom_to_incoming_bonds s
           \<and> (\<forall>a<next_free h. cells h' a = cells h a)"
proof -
  let ?ini = "bond_to_ini_atom s" and ?revs = "b2revb s"
  note c = constructed_mapping_rows [OF assms(1)]
  have len_refs: "length refs = length (atom_to_incoming_bonds s)"
    using assms(2) by (metis length_map)
  have ini: "\<forall>a\<in>set ?ini. a < length refs"
    using c(3) by (simp add: len_refs)
  have lens: "length ?revs = length ?ini"
    using c(1,2) by simp
  from mapping_store_result [OF ini assms(3) lens] obtain m h' where
    res: "mapping_store refs ?ini ?revs h = Inr (m, h')"
    and m: "m = [next_free h + length refs..<next_free h + length refs + length ?ini]"
    and rows: "\<forall>j<length ?ini. cells h' (m ! j) = scrub (?revs ! j) (cells h (refs ! (?ini ! j)))"
    and old: "\<forall>a<next_free h. cells h' a = cells h a"
    by blast
  have lm: "length m = num_bonds s + 1"
    using c(2) by (simp add: m)
  have dist: "distinct m" by (simp add: m)
  have disj: "set m \<inter> set refs = {}"
    using assms(3) by (auto simp: m)
  have same_atom: "\<forall>j<length m. \<forall>k<length m.
      j \<noteq> k \<and> ?ini ! j = ?ini ! k \<longrightarrow> m ! j \<noteq> m ! k"
    using dist by (simp add: nth_eq_iff_index_eq)
  have step: "cnt < length m
        \<and> cells hs' (m ! cnt) = map (\<lambda>x. if x = i then 0 else x) (cells hs (m ! cnt))
        \<and> (\<forall>j<length m. j \<noteq> cnt \<longrightarrow> cells hs' (m ! j) = cells hs (m ! j))
        \<and> (\<forall>a. a \<noteq> m ! cnt \<longrightarrow> cells hs' a = cells hs a)"
    if "replace_rev_bond_store m (cnt, i) hs = Inr hs'" for cnt i hs hs'
  proof -
    from that have cnt: "cnt < length m"
      and hs': "hs' = hs\<lparr>cells := (cells hs)(m ! cnt := scrub i (cells hs (m ! cnt)))\<rparr>"
      by (simp_all add: replace_rev_bond_store_Inr)
    have "m ! j \<noteq> m ! cnt" if "j < length m" "j \<noteq> cnt" for j
      using that cnt dist by (simp add: nth_eq_iff_index_eq)
    with cnt show ?thesis by (simp add: hs' scrub_def)
  qed
  have content: "map (cells h') m = mapping s"
  proof (rule nth_equalityI)
    show "length (map (cells h') m) = length (mapping s)"
      using lm by (simp add: c(4))
  next
    fix j assume "j < length (map (cells h') m)"
    then have j: "j < num_bonds s + 1" using lm by simp
    then have ji: "j < length ?ini" using c(2) by simp
    then have r: "?ini ! j < length refs" using ini by simp
    have "cells h (refs ! (?ini ! j)) = map (cells h) refs ! (?ini ! j)"
      using r by simp
    also have "\<dots> = atom_to_incoming_bonds s ! (?ini ! j)"
      by (simp add: assms(2))
    finally have "cells h' (m ! j)
        = scrub (?revs ! j) (atom_to_incoming_bonds s ! (?ini ! j))"
      using rows ji by simp
    moreover have "mapping s ! j = scrub (?revs ! j) (atom_to_incoming_bonds s ! (?ini ! j))"
      using j by (subst c(4)) (simp del: upt_Suc)
    ultimately show "map (cells h') m ! j = mapping s ! j"
      using j lm by simp
  qed
  have lists: "map (cells h') refs = atom_to_incoming_bonds s"
  proof -
    have "map (cells h') refs = map (cells h) refs"
      by (rule map_cong) (use old assms(3) in auto)
    with assms(2) show ?thesis by simp
  qed
  show ?thesis
    apply (rule exI [of _ m], rule exI [of _ h'])
    apply (rule conjI, rule res)
    apply (rule conjI, rule lm)
    apply (rule conjI, rule dist)
    apply (rule conjI, rule disj)
    apply (rule conjI, rule same_atom)
    apply (rule conjI)
     apply (intro allI impI, erule step)
    apply (rule conjI, rule content)
    apply (rule conjI, rule lists)
    apply (rule old)
    done
qed

theorem scrub_is_row_local_witness:
  "MapperDMPNN_init chain3 15 f_atoms3 = Inr chain3_mapper
   \<and> map (cells chain3_heap) chain3_refs = atom_to_incoming_bonds chain3_mapper
   \<and> chain3_refs = [0, 1, 2, 3] \<and> next_free chain3_heap = 4
   \<and> bond_to_ini_atom chain3_mapper ! 2 = bond_to_ini_atom chain3_mapper ! 3
   \<and> (\<exists>m h'. mapping_store chain3_refs (bond_to_ini_atom chain3_mapper)
                 (b2revb chain3_mapper) chain3_heap = Inr (m, h')
          \<and> length m = 5 \<and> m ! 2 \<noteq> m ! 3
          \<and> cells h' (m ! 2) = [0, 4] \<and> cells h' (m ! 3) = [1, 0]
          \<and> cells h' 2 = [1, 4])"
proof -
  have refs: "map (cells chain3_heap) chain3_refs = atom_to_incoming_bonds chain3_mapper"
    by (simp add: chain3_heap_def chain3_refs_def np_new_rows_def chain3_mapper_def)
  have alloc: "\<forall>a\<in>set chain3_refs. a < next_free chain3_heap"
    by (simp add: chain3_heap_def chain3_refs_def np_new_rows_def chain3_mapper_def)
  have same: "bond_to_ini_atom chain3_mapper ! 2 = bond_to_ini_atom chain3_mapper ! 3"
    and nb: "num_bonds chain3_mapper + 1 = 5"
    and rows: "mapping chain3_mapper ! 2 = [0, 4]" "mapping chain3_mapper ! 3 = [1, 0]"
    and list2: "atom_to_incoming_bonds chain3_mapper ! 2 = [1, 4]"
    by (simp_all add: chain3_mapper_def)
  from scrub_is_row_local [OF chain3_init refs alloc] obtain m h' where
    res: "mapping_store chain3_refs (bond_to_ini_atom chain3_mapper)
            (b2revb chain3_mapper) chain3_heap = Inr (m, h')"
    and lm: "length m = num_bonds chain3_mapper + 1"
    and sep: "\<forall>j<length m. \<forall>k<length m.
                 j \<noteq> k \<and> bond_to_ini_atom chain3_mapper ! j = bond_to_ini_atom chain3_mapper ! k
                 \<longrightarrow> m ! j \<noteq> m ! k"
    and content: "map (cells h') m = mapping chain3_mapper"
    and lists: "map (cells h') chain3_refs = atom_to_incoming_bonds chain3_mapper"
    by blast
  have l5: "length m = 5" using lm nb by simp
  from sep l5 same have ne: "m ! 2 \<noteq> m ! 3" by simp
  have "map (cells h') m ! 2 = [0, 4]" "map (cells h') m ! 3 = [1, 0]"
    unfolding content by (rule rows)+
  then have r: "cells h' (m ! 2) = [0, 4]" "cells h' (m ! 3) = [1, 0]"
    using l5 by simp_all
  have "map (cells h') chain3_refs ! 2 = [1, 4]"
    unfolding lists by (rule list2)
  then have l: "cells h' 2 = [1, 4]" by (simp add: chain3_refs_def)
  have nf: "chain3_refs = [0, 1, 2, 3]" "next_free chain3_heap = 4"
    by (simp_all add: chain3_heap_def chain3_refs_def np_new_rows_def chain3_mapper_def)
  from chain3_init refs nf same res l5 ne r l show ?thesis by blast
qed

end
